theory Spec2Isabelle
  imports Complex_Main "HOL-Library.Sublist" "HOL-Library.Multiset"
begin

section \<open>JavaScript numbers\<close>

text \<open>
  A number of JavaScript is a double: a finite value, carried as the real number it
  denotes, one of the two infinities, or \<open>NaN\<close>. The two zeros are one value here.
\<close>

datatype number = Num real | PosInf | NegInf | NaN

text \<open>
  Arithmetic follows IEEE 754 binary64 in its default rounding: the exact result is
  rounded to the nearest double, a tie going to the double with the even significand.
  Around \<open>x\<close> the doubles are the multiples of \<open>quantum x\<close>, which is \<open>2\<close> to the power
  \<open>e - 52\<close> for the binary exponent \<open>e\<close> of \<open>x\<close>, and never below \<open>2\<close> to the \<open>- 1074\<close>
  (the subnormal doubles). A rounded result of magnitude \<open>2 ^ 1024\<close> or more is infinite.
\<close>

definition round_half_even :: "real \<Rightarrow> int" where
  "round_half_even y =
     (let f = \<lfloor>y\<rfloor>; r = y - of_int f
      in if r < 1 / 2 then f else if r > 1 / 2 then f + 1 else if even f then f else f + 1)"

definition binary_exponent :: "real \<Rightarrow> int" where
  "binary_exponent x = max \<lfloor>log 2 \<bar>x\<bar>\<rfloor> (- 1022)"

definition quantum :: "real \<Rightarrow> real" where
  "quantum x = 2 powr of_int (binary_exponent x - 52)"

definition double_round :: "real \<Rightarrow> number" where
  "double_round x =
     (if x = 0 then Num 0
      else let q = quantum x; r = q * of_int (round_half_even (x / q))
           in if \<bar>r\<bar> \<ge> 2 ^ 1024 then (if x > 0 then PosInf else NegInf) else Num r)"

text \<open>The finite doubles: a significand below \<open>2 ^ 53\<close> times a power of 2 in range.\<close>

definition is_double :: "real \<Rightarrow> bool" where
  "is_double d \<longleftrightarrow>
     (\<exists>m k :: int. d = of_int m * 2 powr of_int k \<and> \<bar>m\<bar> < 2 ^ 53 \<and> - 1074 \<le> k \<and> k \<le> 971)"


text \<open>
  Multiplication, the comparisons \<open><\<close>, \<open>>\<close>, \<open>>=\<close>, \<open><=\<close> (false whenever an operand is
  \<open>NaN\<close>) and \<open>Math.round\<close>, which gives the nearest integer, a tie going up, and leaves
  the infinities and \<open>NaN\<close> as they are.
\<close>

definition js_times :: "number \<Rightarrow> number \<Rightarrow> number" where
  "js_times a b =
     (case (a, b) of
        (Num x, Num y) \<Rightarrow> double_round (x * y)
      | (NaN, _) \<Rightarrow> NaN
      | (_, NaN) \<Rightarrow> NaN
      | (Num x, PosInf) \<Rightarrow> (if x = 0 then NaN else if x > 0 then PosInf else NegInf)
      | (Num x, NegInf) \<Rightarrow> (if x = 0 then NaN else if x > 0 then NegInf else PosInf)
      | (PosInf, Num y) \<Rightarrow> (if y = 0 then NaN else if y > 0 then PosInf else NegInf)
      | (NegInf, Num y) \<Rightarrow> (if y = 0 then NaN else if y > 0 then NegInf else PosInf)
      | (PosInf, PosInf) \<Rightarrow> PosInf
      | (NegInf, NegInf) \<Rightarrow> PosInf
      | (PosInf, NegInf) \<Rightarrow> NegInf
      | (NegInf, PosInf) \<Rightarrow> NegInf)"

definition js_less :: "number \<Rightarrow> number \<Rightarrow> bool" where
  "js_less a b =
     (case (a, b) of
        (Num x, Num y) \<Rightarrow> x < y
      | (NaN, _) \<Rightarrow> False
      | (_, NaN) \<Rightarrow> False
      | (PosInf, _) \<Rightarrow> False
      | (_, PosInf) \<Rightarrow> True
      | (_, NegInf) \<Rightarrow> False
      | (NegInf, _) \<Rightarrow> True)"

definition js_gt :: "number \<Rightarrow> number \<Rightarrow> bool" where
  "js_gt a b = js_less b a"

definition js_le :: "number \<Rightarrow> number \<Rightarrow> bool" where
  "js_le a b = (a \<noteq> NaN \<and> b \<noteq> NaN \<and> \<not> js_less b a)"

definition js_ge :: "number \<Rightarrow> number \<Rightarrow> bool" where
  "js_ge a b = js_le b a"

fun Math_round :: "number \<Rightarrow> number" where
  "Math_round (Num x) = Num (of_int \<lfloor>x + 1 / 2\<rfloor>)"
| "Math_round v = v"

text \<open>
  What rounding to an integer means: \<open>s\<close> is the integer nearest to \<open>p\<close>, the upper one
  of two that are equally near; an infinity or \<open>NaN\<close> stays.
\<close>

definition nearest_integer :: "number \<Rightarrow> number \<Rightarrow> bool" where
  "nearest_integer p s =
     (case p of
        Num y \<Rightarrow> (\<exists>n :: int. s = Num (of_int n) \<and> of_int n - 1 / 2 \<le> y \<and> y < of_int n + 1 / 2)
      | _ \<Rightarrow> s = p)"

section \<open>Fields of API records\<close>

text \<open>
  A JSON field of an API record may be absent, \<open>null\<close> or carry a value. A number is
  truthy unless it is zero or \<open>NaN\<close>.
\<close>

datatype 'a field = Missing | Null | Present 'a

fun truthy_num :: "number field \<Rightarrow> bool" where
  "truthy_num (Present (Num x)) = (x \<noteq> 0)"
| "truthy_num (Present NaN) = False"
| "truthy_num (Present v) = True"
| "truthy_num v = False"

fun truthy_bool :: "bool field \<Rightarrow> bool" where
  "truthy_bool (Present b) = b"
| "truthy_bool _ = False"

section \<open>Transactions page: \<open>mapTransactions\<close>\<close>

datatype status = Fraudulent | Legitimate | Pending

fun status_name :: "status \<Rightarrow> string" where
  "status_name Fraudulent = ''fraudulent''"
| "status_name Legitimate = ''legitimate''"
| "status_name Pending = ''pending''"

text \<open>
  The fields of an API transaction that decide the risk score and the status. The
  display-only fields (date, card suffix, amount, merchant, location) are left out. The
  field \<open>id\<close> of an API transaction is named \<open>txn_id\<close> here.
\<close>

record api_transaction =
  txn_id :: string
  fraud_score :: "number field"
  is_fraud :: "bool field"

record api_transaction_list =
  transactions :: "api_transaction list"

record table_transaction =
  id :: string
  riskScore :: number
  status :: status

definition txn_riskScore :: "api_transaction \<Rightarrow> number" where
  "txn_riskScore txn =
     (if truthy_num (fraud_score txn)
      then (case fraud_score txn of
              Present x \<Rightarrow> Math_round (js_times x (Num 100))
            | _ \<Rightarrow> Num 0)
      else Num 0)"

definition txn_status :: "api_transaction \<Rightarrow> status" where
  "txn_status txn =
     (if truthy_bool (is_fraud txn) then Fraudulent
      else if js_gt (txn_riskScore txn) (Num 60) then Pending
      else Legitimate)"

definition mapTransaction :: "api_transaction \<Rightarrow> table_transaction" where
  "mapTransaction txn =
     \<lparr> id = txn_id txn, riskScore = txn_riskScore txn, status = txn_status txn \<rparr>"

definition mapTransactions :: "api_transaction_list option \<Rightarrow> table_transaction list" where
  "mapTransactions data =
     (case data of None \<Rightarrow> [] | Some d \<Rightarrow> map mapTransaction (transactions d))"

section \<open>Transactions page: filters, and the risk badge of the table\<close>

datatype risk_level = High | Medium | Low

fun level_name :: "risk_level \<Rightarrow> string" where
  "level_name High = ''high''"
| "level_name Medium = ''medium''"
| "level_name Low = ''low''"

definition getRiskLevel :: "number \<Rightarrow> risk_level" where
  "getRiskLevel score =
     (if js_ge score (Num 70) then High else if js_ge score (Num 40) then Medium else Low)"

text \<open>
  The filter state: an unset filter is \<open>None\<close>. \<open>riskMap\<close> is the literal table of
  the source; a key it does not have falls back to the interval from 0 to 100.
\<close>

record filters =
  searchId :: "string option"
  status_filter :: "string option"
  riskLevel :: "string option"

definition riskMap :: "(string \<times> (number \<times> number)) list" where
  "riskMap = [(''high'', (Num 70, Num 100)), (''medium'', (Num 40, Num 69)),
              (''low'', (Num 0, Num 39))]"

definition risk_interval :: "string \<Rightarrow> number \<times> number" where
  "risk_interval r =
     (case map_of riskMap r of Some mm \<Rightarrow> mm | None \<Rightarrow> (Num 0, Num 100))"

definition in_risk_interval :: "string \<Rightarrow> table_transaction \<Rightarrow> bool" where
  "in_risk_interval r tx =
     (case risk_interval r of
        (mn, mx) \<Rightarrow> js_ge (riskScore tx) mn \<and> js_le (riskScore tx) mx)"

definition set_filter :: "string option \<Rightarrow> bool" where
  "set_filter f = (case f of None \<Rightarrow> False | Some s \<Rightarrow> s \<noteq> [])"

definition set_not_all :: "string option \<Rightarrow> bool" where
  "set_not_all f = (set_filter f \<and> f \<noteq> Some ''all'')"

text \<open>
  \<open>filteredTransactions\<close>: the three filter stages in the order of the source.
  \<open>toLowerCase\<close> is the platform's case mapping, taken as a parameter;
  \<open>includes\<close> is the test for a contiguous substring.
\<close>

definition filteredTransactions ::
  "(string \<Rightarrow> string) \<Rightarrow> filters \<Rightarrow> table_transaction list \<Rightarrow> table_transaction list" where
  "filteredTransactions toLowerCase fs allTransactions =
     (let filtered = allTransactions;
          filtered = (if set_filter (searchId fs)
                      then filter (\<lambda>tx. sublist (toLowerCase (the (searchId fs)))
                                                 (toLowerCase (id tx))) filtered
                      else filtered);
          filtered = (if set_not_all (status_filter fs)
                      then filter (\<lambda>tx. status_name (status tx) = the (status_filter fs)) filtered
                      else filtered);
          filtered = (if set_not_all (riskLevel fs)
                      then filter (in_risk_interval (the (riskLevel fs))) filtered
                      else filtered)
      in filtered)"

section \<open>Transactions table: pagination\<close>

text \<open>
  The table keeps the current page in its state, starting at 1. The page shown is
  \<open>transactions.slice(startIndex, endIndex)\<close>; \<open>slice_js\<close> is JavaScript's
  \<open>Array.prototype.slice\<close>, where a negative index counts from the end and both
  indices are clamped to the array. A button that is disabled ignores the click.
\<close>

definition itemsPerPage :: int where
  "itemsPerPage = 10"

definition totalPages :: "'a list \<Rightarrow> int" where
  "totalPages txs = \<lceil>real (length txs) / real_of_int itemsPerPage\<rceil>"

definition startIndex :: "int \<Rightarrow> int" where
  "startIndex currentPage = (currentPage - 1) * itemsPerPage"

definition endIndex :: "int \<Rightarrow> int" where
  "endIndex currentPage = startIndex currentPage + itemsPerPage"

definition relative_index :: "int \<Rightarrow> int \<Rightarrow> int" where
  "relative_index len i = (if i < 0 then max (len + i) 0 else min i len)"

definition slice_js :: "'a list \<Rightarrow> int \<Rightarrow> int \<Rightarrow> 'a list" where
  "slice_js xs start end =
     (let len = int (length xs);
          k = relative_index len start;
          final = relative_index len end
      in take (nat (max (final - k) 0)) (drop (nat k) xs))"

definition currentTransactions :: "'a list \<Rightarrow> int \<Rightarrow> 'a list" where
  "currentTransactions txs currentPage =
     slice_js txs (startIndex currentPage) (endIndex currentPage)"

datatype button = PrevPage | NextPage

fun button_disabled :: "'a list \<Rightarrow> int \<Rightarrow> button \<Rightarrow> bool" where
  "button_disabled txs currentPage PrevPage = (currentPage = 1)"
| "button_disabled txs currentPage NextPage = (currentPage = totalPages txs)"

fun on_click :: "'a list \<Rightarrow> button \<Rightarrow> int \<Rightarrow> int" where
  "on_click txs PrevPage p = max 1 (p - 1)"
| "on_click txs NextPage p = min (totalPages txs) (p + 1)"

definition click :: "'a list \<Rightarrow> int \<Rightarrow> button \<Rightarrow> int" where
  "click txs currentPage b =
     (if button_disabled txs currentPage b then currentPage else on_click txs b currentPage)"

definition clicks :: "'a list \<Rightarrow> button list \<Rightarrow> int" where
  "clicks txs bs = foldl (click txs) 1 bs"

section \<open>Login page: the OAuth callback effect\<close>

text \<open>
  The browser state the effect reads and writes: local storage, the fragment of the
  URL, the events dispatched on the window and the route set through \<open>setLocation\<close>.
  \<open>URLSearchParams\<close> is the platform's parser of the fragment, taken as a parameter;
  \<open>params.get\<close> returns the first value stored under a name. A write to local storage
  may be refused by the browser (the source wraps the writes in \<open>try\<close>): \<open>accepts\<close> says
  which storage contents the browser takes, and a refused write ends the \<open>try\<close> block
  with the earlier writes in place.
\<close>

type_synonym storage = "string \<rightharpoonup> string"

record browser =
  localStorage :: storage
  hash :: string
  events :: "string list"
  route :: "string option"

definition strip_hash :: "string \<Rightarrow> string" where
  "strip_hash h = (case h of c # r \<Rightarrow> (if c = CHR ''#'' then r else h) | [] \<Rightarrow> [])"

definition params_get :: "(string \<times> string) list \<Rightarrow> string \<Rightarrow> string option" where
  "params_get params name = map_of params name"

definition truthy_str :: "string option \<Rightarrow> bool" where
  "truthy_str v = (case v of None \<Rightarrow> False | Some s \<Rightarrow> s \<noteq> [])"

definition setItem :: "(storage \<Rightarrow> bool) \<Rightarrow> string \<Rightarrow> string \<Rightarrow> storage \<Rightarrow> storage option" where
  "setItem accepts k v s = (if accepts (s(k \<mapsto> v)) then Some (s(k \<mapsto> v)) else None)"

fun setItems :: "(storage \<Rightarrow> bool) \<Rightarrow> (string \<times> string) list \<Rightarrow> storage \<Rightarrow> storage \<times> bool" where
  "setItems accepts [] s = (s, True)"
| "setItems accepts ((k, v) # kvs) s =
     (case setItem accepts k v s of
        None \<Rightarrow> (s, False)
      | Some s' \<Rightarrow> setItems accepts kvs s')"

definition oauth_writes :: "(string \<times> string) list \<Rightarrow> (string \<times> string) list" where
  "oauth_writes params =
     (let access = params_get params ''access_token'';
          refresh = params_get params ''refresh_token'';
          emailFromOAuth = params_get params ''email'';
          nameFromOAuth = (if truthy_str (params_get params ''name'')
                           then the (params_get params ''name'') else ''User'')
      in [(''access_token'', the access), (''refresh_token'', the refresh)]
         @ (if truthy_str emailFromOAuth then [(''user_email'', the emailFromOAuth)] else [])
         @ (if nameFromOAuth \<noteq> [] then [(''user_name'', nameFromOAuth)] else []))"

definition oauth_effect ::
  "(storage \<Rightarrow> bool) \<Rightarrow> (string \<Rightarrow> (string \<times> string) list) \<Rightarrow> browser \<Rightarrow> browser" where
  "oauth_effect accepts URLSearchParams b =
     (let h = strip_hash (hash b) in
      if h = [] then b
      else
        let params = URLSearchParams h in
        if truthy_str (params_get params ''access_token'') \<and>
           truthy_str (params_get params ''refresh_token'')
        then
          (case setItems accepts (oauth_writes params) (localStorage b) of
             (s, False) \<Rightarrow> b\<lparr>localStorage := s\<rparr>
           | (s, True) \<Rightarrow>
               b\<lparr>localStorage := s, hash := [], events := events b @ [''auth-changed''],
                 route := Some ''/''\<rparr>)
        else b)"

section \<open>History page: prediction records and the CSV export\<close>

text \<open>
  A prediction of the API and the record the history table shows for it. The date
  formatting \<open>toLocaleString\<close>, the case mappings, \<open>Number.prototype.toFixed\<close> and
  \<open>Number.prototype.toString\<close> belong to the platform and are parameters. A string's
  \<open>slice\<close> follows the same index rules as an array's. The fields \<open>is_fraud\<close> and
  \<open>timestamp\<close> of a prediction are named \<open>pred_is_fraud\<close> and \<open>pred_timestamp\<close> here.
\<close>

record api_prediction =
  transaction_id :: string
  pred_timestamp :: string
  pred_is_fraud :: "bool field"
  fraud_probability :: real
  confidence_score :: real
  processing_time_ms :: real


record history_record =
  timestamp :: string
  transactionId :: string
  cardNumber :: string
  amount :: real
  result :: status
  confidence :: real
  processingTime :: real
  prediction :: api_prediction




text \<open>\<open>filteredData\<close>: \<open>records\<close> is the list computed by \<open>historyData\<close>.\<close>

definition filteredData ::
  "(string \<Rightarrow> string) \<Rightarrow> string \<Rightarrow> history_record list \<Rightarrow> history_record list" where
  "filteredData toLowerCase searchTerm records =
     (if searchTerm = [] then records
      else let term = toLowerCase searchTerm
           in filter (\<lambda>record. sublist term (toLowerCase (transactionId record)) \<or>
                                sublist term (cardNumber record)) records)"

fun join :: "string \<Rightarrow> string list \<Rightarrow> string" where
  "join sep [] = []"
| "join sep [x] = x"
| "join sep (x # y # ys) = x @ sep @ join sep (y # ys)"

definition csv_header :: "string list" where
  "csv_header = [''Timestamp'', ''Transaction ID'', ''Card'', ''Result'', ''Confidence'',
                 ''Processing Time'']"

definition csv_row ::
  "(real \<Rightarrow> nat \<Rightarrow> string) \<Rightarrow> (real \<Rightarrow> string) \<Rightarrow> history_record \<Rightarrow> string list" where
  "csv_row toFixed toString record =
     [timestamp record, transactionId record, cardNumber record, status_name (result record),
      toFixed (confidence record) 1, toString (processingTime record)]"

definition csv_lines ::
  "(real \<Rightarrow> nat \<Rightarrow> string) \<Rightarrow> (real \<Rightarrow> string) \<Rightarrow> history_record list \<Rightarrow> string list" where
  "csv_lines toFixed toString fd =
     map (join '','') (csv_header # map (csv_row toFixed toString) fd)"

definition handleExport_csv ::
  "(real \<Rightarrow> nat \<Rightarrow> string) \<Rightarrow> (real \<Rightarrow> string) \<Rightarrow> history_record list \<Rightarrow> string" where
  "handleExport_csv toFixed toString fd = join [CHR 0x0A] (csv_lines toFixed toString fd)"

text \<open>
  The lines and the columns of a text: \<open>split_on c s\<close> cuts \<open>s\<close> at every occurrence of
  the character \<open>c\<close>, as a reader of the CSV file does at newlines and at commas.
\<close>

fun split_on :: "char \<Rightarrow> string \<Rightarrow> string list" where
  "split_on c [] = [[]]"
| "split_on c (x # xs) =
     (if x = c then [] # split_on c xs
      else (case split_on c xs of p # ps \<Rightarrow> (x # p) # ps | [] \<Rightarrow> [[x]]))"

text \<open>Example predictions and history records, used to try the export on concrete lists.\<close>

definition example_prediction :: api_prediction where
  "example_prediction =
     \<lparr> transaction_id = ''ab12cd34-0000-1234'', pred_timestamp = ''2025-01-05T15:04:05Z'',
       pred_is_fraud = Present False, fraud_probability = 0.75, confidence_score = 0.973,
       processing_time_ms = 12 \<rparr>"

definition example_record :: "string \<Rightarrow> history_record" where
  "example_record ts =
     \<lparr> timestamp = ts, transactionId = ''AB12CD34'', cardNumber = ''**** 1234'', amount = 0,
       result = Pending, confidence = 97.3, processingTime = 12,
       prediction = example_prediction \<rparr>"

section \<open>Analytics page: chart data\<close>

text \<open>
  Counts are integers. The arrays of trends live in a store, a list of arrays addressed
  by position, because \<open>sort\<close> works in place: \<open>slice\<close> puts a copy at a fresh address,
  \<open>sort\<close> overwrites the array at the address it is given, and \<open>map\<close> reads one. The time
  of a date string, \<open>new Date(s).getTime()\<close>, is the platform's and is a parameter;
  \<open>None\<close> stands for the \<open>NaN\<close> of an invalid date. So is the label
  \<open>toLocaleDateString\<close>. The fields \<open>date\<close>, \<open>fraud\<close>, \<open>legitimate\<close> of a charted trend
  point are named \<open>point_date\<close>, \<open>point_fraud\<close>, \<open>point_legitimate\<close> here, and the fields
  \<open>category\<close>, \<open>fraud\<close>, \<open>legitimate\<close> of a charted merchant bar \<open>bar_category\<close>,
  \<open>bar_fraud\<close>, \<open>bar_legitimate\<close>.

  \<open>Array.prototype.sort\<close> is stable and treats a comparator result of \<open>NaN\<close> as 0. For
  a consistent comparator every stable sort returns the same array; it is computed here
  by insertion from the right.
\<close>

record fraud_trend =
  date :: string
  total_transactions :: int
  fraud_transactions :: int

record trend_point =
  point_date :: string
  point_fraud :: int
  point_legitimate :: int

record merchant_category =
  category :: string
  transaction_count :: int
  fraud_count :: int

record merchant_point =
  bar_category :: string
  bar_fraud :: int
  bar_legitimate :: int

type_synonym heap = "fraud_trend list list"

definition array_slice :: "heap \<Rightarrow> nat \<Rightarrow> heap \<times> nat" where
  "array_slice h a = (h @ [h ! a], length h)"

definition positive :: "int option \<Rightarrow> bool" where
  "positive v = (case v of None \<Rightarrow> False | Some n \<Rightarrow> n > 0)"

fun js_insort :: "('a \<Rightarrow> 'a \<Rightarrow> int option) \<Rightarrow> 'a \<Rightarrow> 'a list \<Rightarrow> 'a list" where
  "js_insort cmp x [] = [x]"
| "js_insort cmp x (y # ys) =
     (if positive (cmp x y) then y # js_insort cmp x ys else x # y # ys)"

definition js_sort :: "('a \<Rightarrow> 'a \<Rightarrow> int option) \<Rightarrow> 'a list \<Rightarrow> 'a list" where
  "js_sort cmp xs = foldr (js_insort cmp) xs []"

definition array_sort ::
  "(fraud_trend \<Rightarrow> fraud_trend \<Rightarrow> int option) \<Rightarrow> heap \<Rightarrow> nat \<Rightarrow> heap \<times> nat" where
  "array_sort cmp h a = (h[a := js_sort cmp (h ! a)], a)"

definition array_map :: "(fraud_trend \<Rightarrow> 'b) \<Rightarrow> heap \<Rightarrow> nat \<Rightarrow> 'b list" where
  "array_map f h a = map f (h ! a)"

definition compare_dates ::
  "(string \<Rightarrow> int option) \<Rightarrow> fraud_trend \<Rightarrow> fraud_trend \<Rightarrow> int option" where
  "compare_dates getTime a b =
     (case (getTime (date a), getTime (date b)) of
        (Some x, Some y) \<Rightarrow> Some (x - y)
      | _ \<Rightarrow> None)"

definition trend_to_point :: "(string \<Rightarrow> string) \<Rightarrow> fraud_trend \<Rightarrow> trend_point" where
  "trend_to_point toLocaleDateString trend =
     \<lparr> point_date = toLocaleDateString (date trend),
       point_fraud = fraud_transactions trend,
       point_legitimate = total_transactions trend - fraud_transactions trend \<rparr>"

definition fraudTrendsData ::
  "(string \<Rightarrow> int option) \<Rightarrow> (string \<Rightarrow> string) \<Rightarrow> heap \<Rightarrow> nat option
     \<Rightarrow> heap \<times> trend_point list" where
  "fraudTrendsData getTime toLocaleDateString h trends =
     (case trends of
        None \<Rightarrow> (h, [])
      | Some a \<Rightarrow>
          (let (h1, copy) = array_slice h a;
               (h2, sorted_copy) = array_sort (compare_dates getTime) h1 copy
           in (h2, array_map (trend_to_point toLocaleDateString) h2 sorted_copy)))"

definition merchant_to_point :: "merchant_category \<Rightarrow> merchant_point" where
  "merchant_to_point item =
     \<lparr> bar_category = category item,
       bar_fraud = fraud_count item,
       bar_legitimate = transaction_count item - fraud_count item \<rparr>"

definition merchantChartData :: "merchant_category list option \<Rightarrow> merchant_point list" where
  "merchantChartData merchantData =
     (case merchantData of None \<Rightarrow> [] | Some items \<Rightarrow> map merchant_to_point items)"

definition trend_time :: "(string \<Rightarrow> int option) \<Rightarrow> fraud_trend \<Rightarrow> int" where
  "trend_time getTime t = the (getTime (date t))"

text \<open>Example trends, as the API may return them: not in the order of their dates.\<close>

definition example_times :: "string \<Rightarrow> int option" where
  "example_times = map_of [(''2025-01-01'', 1735689600000), (''2025-01-02'', 1735776000000),
                           (''2025-01-03'', 1735862400000)]"

definition example_trends :: "fraud_trend list" where
  "example_trends =
     [\<lparr>date = ''2025-01-03'', total_transactions = 30, fraud_transactions = 3\<rparr>,
      \<lparr>date = ''2025-01-01'', total_transactions = 10, fraud_transactions = 1\<rparr>,
      \<lparr>date = ''2025-01-02'', total_transactions = 20, fraud_transactions = 0\<rparr>]"

section \<open>Settings page: saving and loading\<close>

text \<open>
  A value of JavaScript as far as JSON reaches: \<open>null\<close>, a boolean, a number, a string,
  an array or an object, which is the list of its properties. The component state holds
  what the setters were given at run time, so the currency is any such value and the
  two numbers may be infinite or \<open>NaN\<close>.

  A text kept in local storage is either the JSON text of a value, identified with that
  value, or a text that \<open>JSON.parse\<close> rejects. \<open>JSON.stringify\<close> writes a number that is
  not finite as \<open>null\<close>; on every other value \<open>JSON.parse\<close> gives back what
  \<open>JSON.stringify\<close> was given. \<open>ToNumber\<close> is the platform's conversion of strings,
  arrays and objects to numbers, a parameter. The event \<open>settings-changed\<close> that \<open>save\<close>
  dispatches is left out.
\<close>

datatype json = JNull | JBool bool | JNum number | JStr string
  | JArr "json list" | JObj "(string \<times> json) list"

datatype stored_text = Json json | NotJson string

type_synonym text_storage = "string \<rightharpoonup> stored_text"

record settings =
  currency :: json
  showFeatureImportance :: bool
  historyItems :: number
  autoRefresh :: bool
  refreshSec :: number

definition initial_settings :: settings where
  "initial_settings =
     \<lparr> currency = JStr ''INR'', showFeatureImportance = True, historyItems = Num 20,
       autoRefresh = True, refreshSec = Num 60 \<rparr>"

fun serialise :: "json \<Rightarrow> json" where
  "serialise (JNum (Num x)) = JNum (Num x)"
| "serialise (JNum v) = JNull"
| "serialise (JArr xs) = JArr (map serialise xs)"
| "serialise (JObj kvs) = JObj (map (map_prod (\<lambda>k. k) serialise) kvs)"
| "serialise v = v"

definition JSON_parse :: "stored_text \<Rightarrow> json option" where
  "JSON_parse t = (case t of Json j \<Rightarrow> Some j | NotJson s \<Rightarrow> None)"

definition JSON_stringify :: "json \<Rightarrow> stored_text" where
  "JSON_stringify j = Json (serialise j)"

fun truthy :: "json option \<Rightarrow> bool" where
  "truthy None = False"
| "truthy (Some JNull) = False"
| "truthy (Some (JBool b)) = b"
| "truthy (Some (JNum v)) = truthy_num (Present v)"
| "truthy (Some (JStr s)) = (s \<noteq> [])"
| "truthy (Some (JArr xs)) = True"
| "truthy (Some (JObj kvs)) = True"

fun opt_prop :: "json option \<Rightarrow> string \<Rightarrow> json option" where
  "opt_prop (Some (JObj kvs)) k = map_of kvs k"
| "opt_prop _ k = None"

fun Number_js :: "(json \<Rightarrow> number) \<Rightarrow> json \<Rightarrow> number" where
  "Number_js ToNumber (JNum v) = v"
| "Number_js ToNumber (JBool b) = Num (if b then 1 else 0)"
| "Number_js ToNumber JNull = Num 0"
| "Number_js ToNumber v = ToNumber v"

definition getItem_or_empty_object :: "text_storage \<Rightarrow> string \<Rightarrow> stored_text" where
  "getItem_or_empty_object ls k =
     (case ls k of
        None \<Rightarrow> Json (JObj [])
      | Some t \<Rightarrow> (if t = NotJson [] then Json (JObj []) else t))"

definition load_settings :: "(json \<Rightarrow> number) \<Rightarrow> text_storage \<Rightarrow> settings \<Rightarrow> settings" where
  "load_settings ToNumber ls st =
     (case JSON_parse (getItem_or_empty_object ls ''settings'') of
        None \<Rightarrow> st
      | Some s \<Rightarrow>
          (let ui = opt_prop (Some s) ''ui'';
               history = opt_prop (Some s) ''history'';
               st = (if truthy (opt_prop ui ''currency'')
                     then st\<lparr>currency := the (opt_prop ui ''currency'')\<rparr> else st);
               st = (case opt_prop ui ''showFeatureImportance'' of
                       Some (JBool b) \<Rightarrow> st\<lparr>showFeatureImportance := b\<rparr>
                     | _ \<Rightarrow> st);
               st = (if truthy (opt_prop history ''itemsPerPage'')
                     then st\<lparr>historyItems :=
                            Number_js ToNumber (the (opt_prop history ''itemsPerPage''))\<rparr>
                     else st);
               st = (case opt_prop history ''autoRefresh'' of
                       Some (JBool b) \<Rightarrow> st\<lparr>autoRefresh := b\<rparr>
                     | _ \<Rightarrow> st);
               st = (if truthy (opt_prop history ''refreshSec'')
                     then st\<lparr>refreshSec :=
                            Number_js ToNumber (the (opt_prop history ''refreshSec''))\<rparr>
                     else st)
           in st))"

text \<open>The object that \<open>save\<close> builds from the state, and the write of its JSON text.\<close>

definition settings_value :: "settings \<Rightarrow> json" where
  "settings_value st =
     JObj [(''ui'', JObj [(''currency'', currency st),
                          (''showFeatureImportance'', JBool (showFeatureImportance st))]),
           (''history'', JObj [(''itemsPerPage'', JNum (historyItems st)),
                               (''autoRefresh'', JBool (autoRefresh st)),
                               (''refreshSec'', JNum (refreshSec st))])]"

definition save :: "settings \<Rightarrow> text_storage \<Rightarrow> text_storage" where
  "save st ls = ls(''settings'' \<mapsto> JSON_stringify (settings_value st))"

text \<open>
  The page: it mounts with the default state and runs the load routine; then the user
  picks a currency or a number of items from the options of the two selects, ticks the
  two checkboxes, types into the number field (\<open>Number(e.target.value) || 60\<close>), saves,
  or leaves and opens the page again.
\<close>

datatype currency_option = INR | USD

fun currency_value :: "currency_option \<Rightarrow> string" where
  "currency_value INR = ''INR''"
| "currency_value USD = ''USD''"

datatype items_option = Items10 | Items20 | Items50

fun items_value :: "items_option \<Rightarrow> string" where
  "items_value Items10 = ''10''"
| "items_value Items20 = ''20''"
| "items_value Items50 = ''50''"

datatype settings_event =
    Mount
  | SelectCurrency currency_option
  | CheckFeatureImportance bool
  | SelectItems items_option
  | CheckAutoRefresh bool
  | InputRefreshSec string
  | ClickSave

definition mount :: "(json \<Rightarrow> number) \<Rightarrow> text_storage \<Rightarrow> settings \<times> text_storage" where
  "mount ToNumber ls = (load_settings ToNumber ls initial_settings, ls)"

fun page_step ::
  "(json \<Rightarrow> number) \<Rightarrow> settings \<times> text_storage \<Rightarrow> settings_event \<Rightarrow> settings \<times> text_storage" where
  "page_step ToNumber (st, ls) Mount = mount ToNumber ls"
| "page_step ToNumber (st, ls) (SelectCurrency c) = (st\<lparr>currency := JStr (currency_value c)\<rparr>, ls)"
| "page_step ToNumber (st, ls) (CheckFeatureImportance b) = (st\<lparr>showFeatureImportance := b\<rparr>, ls)"
| "page_step ToNumber (st, ls) (SelectItems i) =
     (st\<lparr>historyItems := Number_js ToNumber (JStr (items_value i))\<rparr>, ls)"
| "page_step ToNumber (st, ls) (CheckAutoRefresh b) = (st\<lparr>autoRefresh := b\<rparr>, ls)"
| "page_step ToNumber (st, ls) (InputRefreshSec v) =
     (st\<lparr>refreshSec := (let n = Number_js ToNumber (JStr v)
                           in if truthy_num (Present n) then n else Num 60)\<rparr>, ls)"
| "page_step ToNumber (st, ls) ClickSave = (st, save st ls)"

definition page_run ::
  "(json \<Rightarrow> number) \<Rightarrow> text_storage \<Rightarrow> settings_event list \<Rightarrow> settings \<times> text_storage" where
  "page_run ToNumber ls evs = foldl (page_step ToNumber) (mount ToNumber ls) evs"


section \<open>Automatic seeding of demo data\<close>

text \<open>
  The effects of the Transactions page and of the Dashboard are asynchronous: a run
  checks its guards and the marker in session storage, calls \<open>seedTransactions\<close> and
  waits; the \<open>finally\<close> branch, which writes the marker, runs when the call has
  settled, with success or with failure. Other runs of the effect may start in between.
  A session records the number of calls of \<open>seedTransactions\<close> and the runs that wait
  for their call. The event \<open>SeedSettled i ok\<close> settles the call of the \<open>i\<close>-th waiting
  run. The part of the Dashboard effect that creates batch predictions is left out.
\<close>

datatype page = TransactionsPage | DashboardPage

record query_state =
  isLoading :: bool
  isFetching :: bool
  isError :: bool
  data_count :: nat

record session =
  user_email :: "string option"
  sessionStorage :: "string \<rightharpoonup> string"
  seed_calls :: nat
  pending :: "(page \<times> string) list"
  refetch_calls :: nat

datatype event =
    TransactionsEffect query_state
  | DashboardEffect "nat option"
  | SeedSettled nat bool

definition seededKey :: "session \<Rightarrow> string" where
  "seededKey s =
     ''seeded_demo_'' @
       (case user_email s of None \<Rightarrow> ''anon'' | Some e \<Rightarrow> (if e = [] then ''anon'' else e))"

definition marker_set :: "session \<Rightarrow> string \<Rightarrow> bool" where
  "marker_set s k = (case sessionStorage s k of None \<Rightarrow> False | Some v \<Rightarrow> v \<noteq> [])"

definition start_seed :: "page \<Rightarrow> session \<Rightarrow> session" where
  "start_seed p s =
     (if \<not> marker_set s (seededKey s)
      then s\<lparr>seed_calls := Suc (seed_calls s), pending := pending s @ [(p, seededKey s)]\<rparr>
      else s)"

definition finally_branch :: "page \<times> string \<Rightarrow> session \<Rightarrow> session" where
  "finally_branch run s =
     (let s = s\<lparr>sessionStorage := (sessionStorage s)(snd run \<mapsto> ''1'')\<rparr>
      in (case fst run of
            TransactionsPage \<Rightarrow> s\<lparr>refetch_calls := Suc (refetch_calls s)\<rparr>
          | DashboardPage \<Rightarrow> s))"

fun step :: "session \<Rightarrow> event \<Rightarrow> session" where
  "step s (TransactionsEffect q) =
     (if isLoading q \<or> isFetching q \<or> isError q then s
      else if data_count q > 0 then s
      else start_seed TransactionsPage s)"
| "step s (DashboardEffect metrics) =
     (case metrics of
        None \<Rightarrow> s
      | Some totalTx \<Rightarrow> (if totalTx = 0 then start_seed DashboardPage s else s))"
| "step s (SeedSettled i ok) =
     (if i < length (pending s)
      then finally_branch (pending s ! i)
             (s\<lparr>pending := take i (pending s) @ drop (Suc i) (pending s)\<rparr>)
      else s)"

definition run_events :: "session \<Rightarrow> event list \<Rightarrow> session" where
  "run_events s evs = foldl step s evs"

definition new_session :: "string option \<Rightarrow> session" where
  "new_session email =
     \<lparr> user_email = email, sessionStorage = Map.empty, seed_calls = 0, pending = [],
       refetch_calls = 0 \<rparr>"

definition idle_empty :: query_state where
  "idle_empty = \<lparr> isLoading = False, isFetching = False, isError = False, data_count = 0 \<rparr>"

definition fetching_empty :: query_state where
  "fetching_empty = \<lparr> isLoading = False, isFetching = True, isError = False, data_count = 0 \<rparr>"

section \<open>Rounding to a double\<close>

text \<open>
  \<open>round_half_even\<close> gives a nearest integer and an even one at a tie. So
  \<open>double_round\<close> gives a double, none is nearer to the exact value, at a tie its
  significand is even, and a double is left as it is.
\<close>

lemma round_half_even_cases:
  "round_half_even y = \<lfloor>y\<rfloor> \<or> round_half_even y = \<lfloor>y\<rfloor> + 1"
  by (simp add: round_half_even_def Let_def)

lemma round_half_even_half: "\<bar>of_int (round_half_even y) - y\<bar> \<le> 1 / 2"
  unfolding round_half_even_def Let_def
  by (auto; linarith)

lemma round_half_even_nearest: "\<bar>of_int (round_half_even y) - y\<bar> \<le> \<bar>of_int k - y\<bar>"
proof -
  let ?f = "\<lfloor>y\<rfloor>"
  have fl: "of_int ?f \<le> y" "y < of_int ?f + 1"
    by linarith+
  have "k \<le> ?f \<or> ?f + 1 \<le> k"
    by linarith
  then have far: "of_int k \<le> (of_int ?f :: real) \<or> (of_int ?f :: real) + 1 \<le> of_int k"
    by (metis of_int_le_iff of_int_add of_int_1)
  have "1 / 2 \<le> \<bar>of_int k - y\<bar> \<or> \<bar>of_int k - y\<bar> \<ge> \<bar>of_int (round_half_even y) - y\<bar>"
    using far fl unfolding round_half_even_def Let_def
    by (auto; linarith)
  then show ?thesis
    using round_half_even_half [of y] by linarith
qed

lemma round_half_even_tie:
  "\<bar>of_int (round_half_even y) - y\<bar> = 1 / 2 \<Longrightarrow> even (round_half_even y)"
  unfolding round_half_even_def Let_def
  by (auto split: if_splits; linarith)

lemma round_half_even_of_int: "round_half_even (of_int n) = n"
  by (simp add: round_half_even_def)


lemma quantum_pos: "quantum x > 0"
  by (simp add: quantum_def)

lemma binary_exponent_upper: "x \<noteq> 0 \<Longrightarrow> \<bar>x\<bar> < 2 powr of_int (binary_exponent x + 1)"
proof -
  assume "x \<noteq> 0"
  then have pos: "0 < \<bar>x\<bar>" by simp
  have "\<bar>x\<bar> < 2 powr of_int (\<lfloor>log 2 \<bar>x\<bar>\<rfloor> + 1)"
    using floor_log_eq_powr_iff [OF pos, of 2 "\<lfloor>log 2 \<bar>x\<bar>\<rfloor>"] by simp
  also have "\<dots> \<le> 2 powr of_int (binary_exponent x + 1)"
    by (intro powr_mono) (simp_all add: binary_exponent_def)
  finally show ?thesis .
qed

lemma binary_exponent_lower:
  "x \<noteq> 0 \<Longrightarrow> - 1022 < binary_exponent x \<Longrightarrow> 2 powr of_int (binary_exponent x) \<le> \<bar>x\<bar>"
proof -
  assume "x \<noteq> 0" and big: "- 1022 < binary_exponent x"
  then have pos: "0 < \<bar>x\<bar>" by simp
  have "binary_exponent x = \<lfloor>log 2 \<bar>x\<bar>\<rfloor>"
    using big by (simp add: binary_exponent_def max_def split: if_splits)
  then show ?thesis
    using floor_log_eq_powr_iff [OF pos, of 2 "\<lfloor>log 2 \<bar>x\<bar>\<rfloor>"] by simp
qed

lemma binary_exponent_min: "- 1022 \<le> binary_exponent x"
  by (simp add: binary_exponent_def)

lemma double_round_Num:
  assumes "x \<noteq> 0" and "double_round x = Num r"
  shows "r = quantum x * of_int (round_half_even (x / quantum x))" and "\<bar>r\<bar> < 2 ^ 1024"
  using assms by (auto simp: double_round_def Let_def split: if_splits)

lemma grid_nearest:
  assumes "x \<noteq> 0" and "double_round x = Num r"
  shows "\<bar>r - x\<bar> \<le> \<bar>of_int j * quantum x - x\<bar>"
proof -
  let ?q = "quantum x"
  let ?y = "x / ?q"
  let ?n = "round_half_even ?y"
  have q: "0 < ?q" by (rule quantum_pos)
  have r: "r = ?q * of_int ?n" using assms by (rule double_round_Num)
  have x: "x = ?q * ?y" using q by simp
  have "r - x = ?q * (of_int ?n - ?y)"
    using q by (simp add: r right_diff_distrib)
  then have "\<bar>r - x\<bar> = ?q * \<bar>of_int ?n - ?y\<bar>"
    using q by (simp add: abs_mult)
  also have "\<dots> \<le> ?q * \<bar>of_int j - ?y\<bar>"
    using q round_half_even_nearest [of ?y j] by simp
  also have "\<dots> = \<bar>?q * (of_int j - ?y)\<bar>"
    using q by (simp add: abs_mult)
  also have "?q * (of_int j - ?y) = of_int j * ?q - x"
    using q by (simp add: right_diff_distrib)
  finally show ?thesis .
qed

lemma is_double_multiple:
  assumes "e - 52 \<le> k"
  shows "\<exists>j::int. (of_int m :: real) * 2 powr of_int k = of_int j * 2 powr of_int (e - 52)"
proof -
  define i where "i = k - (e - 52)"
  have i: "0 \<le> i" and k: "k = i + (e - 52)"
    using assms by (simp_all add: i_def)
  have "(2::real) powr of_int k = 2 powr (of_int i + of_int (e - 52))"
    by (simp add: k)
  also have "\<dots> = 2 powr of_int i * 2 powr of_int (e - 52)"
    by (rule powr_add)
  also have "(2::real) powr of_int i = 2 ^ nat i"
    using i powr_real_of_int [of 2 i] by simp
  finally have "(of_int m :: real) * 2 powr of_int k =
      of_int (m * 2 ^ nat i) * 2 powr of_int (e - 52)"
    by simp
  then show ?thesis by blast
qed

lemma double_round_nearest:
  assumes "double_round x = Num r" and "is_double d"
  shows "\<bar>r - x\<bar> \<le> \<bar>d - x\<bar>"
proof (cases "x = 0")
  case True
  with assms(1) show ?thesis by (simp add: double_round_def)
next
  case False
  let ?e = "binary_exponent x"
  let ?q = "quantum x"
  from assms(2) obtain m k :: int
    where d: "d = of_int m * 2 powr of_int k" and m: "\<bar>m\<bar> < 2 ^ 53" and k: "- 1074 \<le> k"
    by (auto simp: is_double_def)
  show ?thesis
  proof (cases "?e - 52 \<le> k")
    case True
    then obtain j :: int where "d = of_int j * ?q"
      unfolding d quantum_def using is_double_multiple by blast
    then show ?thesis
      using grid_nearest [OF False assms(1), of j] by simp
  next
    case small: False
    with k have big: "- 1022 < ?e" by linarith
    have low: "2 powr of_int ?e \<le> \<bar>x\<bar>"
      using False big by (rule binary_exponent_lower)
    have "\<bar>of_int m :: real\<bar> < 2 ^ 53"
      using m by (metis of_int_abs of_int_less_numeral_power_cancel_iff)
    then have "\<bar>d\<bar> < 2 ^ 53 * 2 powr of_int k"
      by (simp add: d abs_mult)
    also have "(2::real) ^ 53 * 2 powr of_int k = 2 powr (of_int 53 + of_int k)"
      by (simp add: powr_add)
    also have "\<dots> \<le> 2 powr of_int ?e"
      using small by (intro powr_mono) simp_all
    finally have dlt: "\<bar>d\<bar> < 2 powr of_int ?e" .
    have pow: "(2::real) powr of_int ?e = of_int (2 ^ 52) * ?q"
    proof -
      have "(2::real) powr of_int ?e = 2 powr (of_int 52 + of_int (?e - 52))" by simp
      also have "\<dots> = 2 powr of_int 52 * 2 powr of_int (?e - 52)" by (rule powr_add)
      finally show ?thesis by (simp add: quantum_def)
    qed
    show ?thesis
    proof (cases "0 < x")
      case True
      have "\<bar>r - x\<bar> \<le> \<bar>of_int (2 ^ 52) * ?q - x\<bar>"
        by (rule grid_nearest [OF False assms(1)])
      then show ?thesis
        using True low dlt unfolding pow [symmetric] by linarith
    next
      case neg: False
      have "\<bar>r - x\<bar> \<le> \<bar>of_int (- (2 ^ 52)) * ?q - x\<bar>"
        by (rule grid_nearest [OF False assms(1)])
      moreover have "of_int (- (2 ^ 52)) * ?q = - (2 powr of_int ?e)"
        using pow by simp
      ultimately show ?thesis
        using neg False low dlt by linarith
    qed
  qed
qed


lemma round_half_even_bounds: "\<lfloor>y\<rfloor> \<le> round_half_even y" "round_half_even y \<le> \<lceil>y\<rceil>"
  unfolding round_half_even_def Let_def
  by (auto; linarith)+

lemma binary_exponent_eq:
  assumes "2 powr of_int e \<le> \<bar>x\<bar>" and "\<bar>x\<bar> < 2 powr of_int (e + 1)" and "- 1022 \<le> e"
  shows "binary_exponent x = e"
proof -
  have "0 < (2::real) powr of_int e" by simp
  with assms(1) have pos: "0 < \<bar>x\<bar>" by linarith
  have "\<lfloor>log 2 \<bar>x\<bar>\<rfloor> = e"
    using floor_log_eq_powr_iff [OF pos, of 2 e] assms by simp
  with assms(3) show ?thesis
    by (simp add: binary_exponent_def)
qed

lemma double_round_tie:
  assumes "x \<noteq> 0" and "double_round x = Num r" and "\<bar>r - x\<bar> = quantum x / 2"
  shows "\<exists>n. r = of_int n * quantum x \<and> even n"
proof -
  let ?q = "quantum x"
  let ?y = "x / ?q"
  let ?n = "round_half_even ?y"
  have q: "0 < ?q" by (rule quantum_pos)
  have r: "r = ?q * of_int ?n" using assms(1,2) by (rule double_round_Num)
  have "r - x = ?q * (of_int ?n - ?y)"
    using q by (simp add: r right_diff_distrib)
  then have "\<bar>r - x\<bar> = ?q * \<bar>of_int ?n - ?y\<bar>"
    using q by (simp add: abs_mult)
  with assms(3) q have "\<bar>of_int ?n - ?y\<bar> = 1 / 2"
    by simp
  then have "even ?n" by (rule round_half_even_tie)
  with r show ?thesis by (auto simp: mult.commute)
qed

lemma double_round_is_double:
  assumes "double_round x = Num r"
  shows "is_double r"
proof (cases "x = 0")
  case True
  with assms have "r = of_int 0 * 2 powr of_int 0" by (simp add: double_round_def)
  then show ?thesis unfolding is_double_def by (intro exI [of _ 0]) simp
next
  case False
  let ?e = "binary_exponent x"
  let ?q = "quantum x"
  let ?y = "x / ?q"
  let ?n = "round_half_even ?y"
  have q: "0 < ?q" by (rule quantum_pos)
  have r: "r = ?q * of_int ?n" and fin: "\<bar>r\<bar> < 2 ^ 1024"
    using False assms by (rule double_round_Num)+
  have emin: "- 1022 \<le> ?e" by (rule binary_exponent_min)
  have q53: "?q * 2 ^ 53 = 2 powr of_int (?e + 1)"
  proof -
    have "(2::real) powr of_int (?e + 1) = 2 powr (of_int (?e - 52) + of_int 53)"
      by (simp add: algebra_simps)
    also have "\<dots> = 2 powr of_int (?e - 52) * 2 powr of_int 53" by (rule powr_add)
    finally show ?thesis by (simp add: quantum_def)
  qed
  have q52: "?q * 2 ^ 52 = 2 powr of_int ?e"
  proof -
    have "(2::real) powr of_int ?e = 2 powr (of_int (?e - 52) + of_int 52)"
      by (simp add: algebra_simps)
    also have "\<dots> = 2 powr of_int (?e - 52) * 2 powr of_int 52" by (rule powr_add)
    finally show ?thesis by (simp add: quantum_def)
  qed
  have "\<bar>x\<bar> < ?q * 2 ^ 53"
    unfolding q53 using False by (rule binary_exponent_upper)
  then have ylt: "\<bar>?y\<bar> < 2 ^ 53"
    using q by (simp add: abs_divide pos_divide_less_eq mult.commute)
  have nle: "\<bar>?n\<bar> \<le> 2 ^ 53"
  proof -
    from ylt have "of_int (- (2 ^ 53)) \<le> ?y" "?y \<le> of_int (2 ^ 53)"
      by (simp_all only: of_int_minus of_int_power of_int_numeral)
    then have "- (2 ^ 53) \<le> \<lfloor>?y\<rfloor>" "\<lceil>?y\<rceil> \<le> 2 ^ 53"
      by (simp_all only: le_floor_iff ceiling_le_iff)
    then show ?thesis
      using round_half_even_bounds [of ?y] by linarith
  qed
  have absr: "\<bar>r\<bar> = ?q * of_int \<bar>?n\<bar>"
    using q by (simp add: r abs_mult)
  have etop: "?e \<le> 1023"
  proof (rule ccontr)
    assume "\<not> ?e \<le> 1023"
    then have big: "1024 \<le> ?e" by simp
    then have "- 1022 < ?e" by simp
    with False have low: "2 powr of_int ?e \<le> \<bar>x\<bar>" by (rule binary_exponent_lower)
    then have "2 ^ 52 \<le> \<bar>?y\<bar>"
      using q unfolding q52 [symmetric] by (simp add: abs_divide pos_le_divide_eq mult.commute)
    then have "of_int (2 ^ 52) \<le> ?y \<or> ?y \<le> of_int (- (2 ^ 52))"
      by (simp only: of_int_minus of_int_power of_int_numeral) linarith
    then have "2 ^ 52 \<le> \<lfloor>?y\<rfloor> \<or> \<lceil>?y\<rceil> \<le> - (2 ^ 52)"
      by (simp only: le_floor_iff ceiling_le_iff)
    then have "2 ^ 52 \<le> \<bar>?n\<bar>"
      using round_half_even_bounds [of ?y] by linarith
    then have "(2::real) ^ 52 \<le> of_int \<bar>?n\<bar>"
      by (metis of_int_le_iff of_int_numeral of_int_power)
    then have "?q * 2 ^ 52 \<le> \<bar>r\<bar>"
      unfolding absr using q by simp
    moreover have "(2::real) ^ 1024 \<le> 2 powr of_int ?e"
    proof -
      have "(2::real) powr of_int 1024 \<le> 2 powr of_int ?e"
        using big by (intro powr_mono) simp_all
      then show ?thesis by simp
    qed
    ultimately show False
      using fin unfolding q52 by linarith
  qed
  show ?thesis
  proof (cases "\<bar>?n\<bar> < 2 ^ 53")
    case True
    have "r = of_int ?n * 2 powr of_int (?e - 52)"
      by (simp add: r quantum_def mult.commute)
    then show ?thesis
      unfolding is_double_def using True emin etop
      by (intro exI [of _ ?n] exI [of _ "?e - 52"]) simp
  next
    case False
    with nle have n53: "\<bar>?n\<bar> = 2 ^ 53" by linarith
    then have "\<bar>r\<bar> = ?q * 2 ^ 53"
      unfolding absr by simp
    with fin have "2 powr of_int (?e + 1) < (2::real) powr of_int 1024"
      unfolding q53 by simp
    then have e22: "?e \<le> 1022"
      by (simp only: powr_less_cancel_iff)
    obtain h :: int where n: "?n = 2 * h" and h: "\<bar>h\<bar> = 2 ^ 52"
    proof (cases "0 \<le> ?n")
      case True
      with n53 have "?n = 2 * 2 ^ 52" by simp
      then show ?thesis using that [of "2 ^ 52"] by simp
    next
      case False
      with n53 have "?n = 2 * - (2 ^ 52)" by simp
      then show ?thesis using that [of "- (2 ^ 52)"] by simp
    qed
    have "(2::real) powr of_int (?e - 51) = 2 powr (of_int (?e - 52) + of_int 1)"
      by (simp add: algebra_simps)
    also have "\<dots> = 2 powr of_int (?e - 52) * 2 powr of_int 1" by (rule powr_add)
    finally have "2 powr of_int (?e - 51) = ?q * 2" by (simp add: quantum_def)
    then have "r = of_int h * 2 powr of_int (?e - 51)"
      by (simp add: r n)
    then show ?thesis
      unfolding is_double_def using h emin e22
      by (intro exI [of _ h] exI [of _ "?e - 51"]) simp
  qed
qed

lemma double_round_double:
  assumes "is_double d"
  shows "double_round d = Num d"
proof (cases "d = 0")
  case True
  then show ?thesis by (simp add: double_round_def)
next
  case False
  let ?e = "binary_exponent d"
  let ?q = "quantum d"
  from assms obtain m k :: int
    where d: "d = of_int m * 2 powr of_int k" and m: "\<bar>m\<bar> < 2 ^ 53"
      and k: "- 1074 \<le> k" "k \<le> 971"
    by (auto simp: is_double_def)
  have q: "0 < ?q" by (rule quantum_pos)
  have mr: "\<bar>of_int m :: real\<bar> < 2 ^ 53"
    using m by (metis of_int_abs of_int_less_numeral_power_cancel_iff)
  then have dlt: "\<bar>d\<bar> < 2 powr (of_int 53 + of_int k)"
    by (simp add: d abs_mult powr_add)
  have ek: "?e - 52 \<le> k"
  proof (cases "- 1022 < ?e")
    case True
    with False have "2 powr of_int ?e \<le> \<bar>d\<bar>" by (rule binary_exponent_lower)
    with dlt have "(2::real) powr of_int ?e < 2 powr (of_int 53 + of_int k)" by linarith
    then have "real_of_int ?e < of_int 53 + of_int k"
      by (simp only: powr_less_cancel_iff)
    then show ?thesis by linarith
  next
    case False
    with binary_exponent_min [of d] have "?e = - 1022" by linarith
    with k show ?thesis by simp
  qed
  then obtain j :: int where j: "d = of_int j * ?q"
    unfolding d quantum_def using is_double_multiple by blast
  define qq where "qq = ?q"
  have "d / qq = of_int j"
    using q j unfolding qq_def [symmetric] by (metis less_irrefl nonzero_mult_div_cancel_right)
  then have "qq * of_int (round_half_even (d / qq)) = of_int j * qq"
    by (simp add: round_half_even_of_int)
  then have r: "?q * of_int (round_half_even (d / ?q)) = d"
    using j unfolding qq_def by simp
  have "\<bar>d\<bar> < 2 powr (of_int 53 + of_int 971)"
  proof -
    have "(2::real) powr (of_int 53 + of_int k) \<le> 2 powr (of_int 53 + of_int 971)"
      using k by (intro powr_mono) simp_all
    with dlt show ?thesis by linarith
  qed
  then have fin: "\<bar>d\<bar> < 2 ^ 1024"
    by simp
  show ?thesis
    using False fin by (simp add: double_round_def Let_def r)
qed

lemma double_round_eval:
  assumes "2 powr of_int e \<le> \<bar>x\<bar>" and "\<bar>x\<bar> < 2 powr of_int (e + 1)" and "- 1022 \<le> e"
  shows "double_round x =
     (let q = 2 powr of_int (e - 52); r = q * of_int (round_half_even (x / q))
      in if \<bar>r\<bar> \<ge> 2 ^ 1024 then (if x > 0 then PosInf else NegInf) else Num r)"
proof -
  have "0 < (2::real) powr of_int e" by simp
  with assms(1) have "x \<noteq> 0" by auto
  then show ?thesis
    by (simp add: double_round_def quantum_def binary_exponent_eq [OF assms])
qed


lemma Math_round_nearest: "nearest_integer p (Math_round p)"
proof (cases p)
  case (Num y)
  have a: "of_int \<lfloor>y + 1 / 2\<rfloor> - 1 / 2 \<le> y" and b: "y < of_int \<lfloor>y + 1 / 2\<rfloor> + 1 / 2"
    by linarith+
  show ?thesis
    unfolding Num nearest_integer_def number.case Math_round.simps using a b by blast
qed (simp_all add: nearest_integer_def)

lemma nearest_integerI:
  "of_int n - 1 / 2 \<le> y \<Longrightarrow> y < of_int n + 1 / 2 \<Longrightarrow> nearest_integer (Num y) (Num (of_int n))"
  unfolding nearest_integer_def by auto

lemma nearest_integer_unique:
  assumes "nearest_integer p s" and "nearest_integer p s'"
  shows "s = s'"
proof (cases p)
  case (Num y)
  from assms obtain n n' :: int
    where s: "s = Num (of_int n)" "of_int n - 1 / 2 \<le> y" "y < of_int n + 1 / 2"
      and s': "s' = Num (of_int n')" "of_int n' - 1 / 2 \<le> y" "y < of_int n' + 1 / 2"
    unfolding Num nearest_integer_def by auto
  then have "(of_int n :: real) < of_int n' + 1" "(of_int n' :: real) < of_int n + 1"
    by linarith+
  then have "n < n' + 1" "n' < n + 1"
    by (metis of_int_less_iff of_int_add of_int_1)+
  then show ?thesis by (simp add: s s')
qed (use assms in \<open>simp_all add: nearest_integer_def\<close>)

text \<open>The comparisons on finite numbers are those of the reals; an infinity lies beyond.\<close>

lemma js_compare_Num:
  "js_less (Num a) (Num b) \<longleftrightarrow> a < b"
  "js_gt (Num a) (Num b) \<longleftrightarrow> b < a"
  "js_le (Num a) (Num b) \<longleftrightarrow> a \<le> b"
  "js_ge (Num a) (Num b) \<longleftrightarrow> b \<le> a"
  by (auto simp: js_less_def js_gt_def js_le_def js_ge_def)

lemma js_compare_special:
  "js_gt PosInf (Num b)" "\<not> js_gt NegInf (Num b)" "\<not> js_gt NaN v" "\<not> js_gt v NaN"
  "js_ge PosInf (Num b)" "\<not> js_le PosInf (Num b)" "\<not> js_ge NegInf (Num b)"
  "\<not> js_ge NaN v" "\<not> js_le NaN v"
  by (cases v; simp add: js_less_def js_gt_def js_le_def js_ge_def)+

section \<open>Classification of a transaction\<close>

lemma truthy_bool_iff: "truthy_bool b \<longleftrightarrow> b = Present True"
  by (cases b) auto

lemma riskScore_mapTransaction: "riskScore (mapTransaction txn) = txn_riskScore txn"
  by (simp add: mapTransaction_def)

lemma truthy_num_times_100:
  "truthy_num (Present v) \<Longrightarrow> js_times v (Num 100) \<noteq> NaN"
  by (cases v) (auto simp: js_times_def double_round_def Let_def)

text \<open>
  The double nearest to 0.285 is \<open>5134103575202365 / 2 ^ 54\<close>. Its product with 100 is
  rounded to a double just below 28.5, so the risk score is 28, not 29.
\<close>

lemma riskScore_of_0285:
  "txn_riskScore \<lparr>txn_id = tid, fraud_score = Present (Num (5134103575202365 / 18014398509481984)),
                   is_fraud = f\<rparr> = Num 28"
  using double_round_eval [of 4 "5134103575202365 / 18014398509481984 * 100"]
  by (simp add: txn_riskScore_def js_times_def round_half_even_def Let_def powr_neg_numeral)

text \<open>
  C1. Every transaction of the list is mapped by itself. Its status is fraudulent
  exactly when \<open>is_fraud\<close> is true; otherwise pending exactly when the derived risk score
  exceeds 60; otherwise legitimate. A missing, null or zero \<open>fraud_score\<close> (or \<open>NaN\<close>)
  gives the risk score 0. Any other score is multiplied by 100 as doubles are, the
  product of two finite numbers being the exact product rounded to a double, and the
  risk score is the integer nearest to that product, the upper one at a tie.
\<close>

theorem C1_mapTransactions_classification:
  "mapTransactions None = [] \<and>
   mapTransactions (Some d) = map mapTransaction (transactions d) \<and>
   (\<forall>txn \<in> set (transactions d).
      (status (mapTransaction txn) = Fraudulent \<longleftrightarrow> is_fraud txn = Present True) \<and>
      (is_fraud txn \<noteq> Present True \<longrightarrow>
         (status (mapTransaction txn) = Pending
            \<longleftrightarrow> js_gt (riskScore (mapTransaction txn)) (Num 60))) \<and>
      (is_fraud txn \<noteq> Present True \<and> \<not> js_gt (riskScore (mapTransaction txn)) (Num 60) \<longrightarrow>
         status (mapTransaction txn) = Legitimate) \<and>
      (fraud_score txn \<in> {Missing, Null, Present (Num 0), Present NaN} \<longrightarrow>
         riskScore (mapTransaction txn) = Num 0) \<and>
      (\<forall>v. fraud_score txn = Present v \<and> v \<noteq> Num 0 \<and> v \<noteq> NaN \<longrightarrow>
         nearest_integer (js_times v (Num 100)) (riskScore (mapTransaction txn)) \<and>
         (\<forall>x. v = Num x \<longrightarrow> js_times v (Num 100) = double_round (x * 100))))"
proof -
  have none: "mapTransactions None = []"
    by (simp add: mapTransactions_def)
  have some: "mapTransactions (Some d) = map mapTransaction (transactions d)"
    by (simp add: mapTransactions_def)
  have st1: "status (mapTransaction txn) = Fraudulent \<longleftrightarrow> is_fraud txn = Present True" for txn
    by (simp add: mapTransaction_def txn_status_def truthy_bool_iff)
  have st2: "status (mapTransaction txn) = Pending
               \<longleftrightarrow> js_gt (riskScore (mapTransaction txn)) (Num 60)"
    if "is_fraud txn \<noteq> Present True" for txn
    using that by (simp add: mapTransaction_def txn_status_def truthy_bool_iff)
  have st3: "status (mapTransaction txn) = Legitimate"
    if "is_fraud txn \<noteq> Present True \<and> \<not> js_gt (riskScore (mapTransaction txn)) (Num 60)"
    for txn
    using that by (simp add: mapTransaction_def txn_status_def truthy_bool_iff)
  have zero: "riskScore (mapTransaction txn) = Num 0"
    if "fraud_score txn \<in> {Missing, Null, Present (Num 0), Present NaN}" for txn
    using that by (auto simp: mapTransaction_def txn_riskScore_def)
  have score: "nearest_integer (js_times v (Num 100)) (riskScore (mapTransaction txn)) \<and>
         (\<forall>x. v = Num x \<longrightarrow> js_times v (Num 100) = double_round (x * 100))"
    if "fraud_score txn = Present v \<and> v \<noteq> Num 0 \<and> v \<noteq> NaN" for txn v
  proof -
    from that have "truthy_num (fraud_score txn)"
      by (cases v) auto
    with that have "riskScore (mapTransaction txn) = Math_round (js_times v (Num 100))"
      by (simp add: mapTransaction_def txn_riskScore_def)
    then show ?thesis
      by (simp add: Math_round_nearest js_times_def)
  qed
  show ?thesis
    using none some st1 st2 st3 zero score by blast
qed

text \<open>
  The double nearest to 0.605 is \<open>1362338887279575 / 2 ^ 51\<close>. Its exact product with
  100 lies just below 60.5 and rounds to the double 60.5, so the risk score is 61.
\<close>

theorem C1_mapTransactions_classification_witness:
  "\<lparr>txn_id = ''t1'', fraud_score = Present (Num (1362338887279575 / 2251799813685248)),
      is_fraud = Present False\<rparr>
     \<in> set (transactions \<lparr>transactions =
         [\<lparr>txn_id = ''t1'', fraud_score = Present (Num (1362338887279575 / 2251799813685248)),
            is_fraud = Present False\<rparr>,
          \<lparr>txn_id = ''t2'', fraud_score = Null, is_fraud = Missing\<rparr>,
          \<lparr>txn_id = ''t3'', fraud_score = Present (Num (1 / 4)), is_fraud = Present True\<rparr>]\<rparr>) \<and>
   js_times (Num (1362338887279575 / 2251799813685248)) (Num 100) = Num (121 / 2) \<and>
   riskScore (mapTransaction
      \<lparr>txn_id = ''t1'', fraud_score = Present (Num (1362338887279575 / 2251799813685248)),
        is_fraud = Present False\<rparr>) = Num 61 \<and>
   status (mapTransaction
      \<lparr>txn_id = ''t1'', fraud_score = Present (Num (1362338887279575 / 2251799813685248)),
        is_fraud = Present False\<rparr>) = Pending \<and>
   riskScore (mapTransaction \<lparr>txn_id = ''t2'', fraud_score = Null, is_fraud = Missing\<rparr>) = Num 0 \<and>
   status (mapTransaction \<lparr>txn_id = ''t2'', fraud_score = Null, is_fraud = Missing\<rparr>)
     = Legitimate \<and>
   status (mapTransaction
      \<lparr>txn_id = ''t3'', fraud_score = Present (Num (1 / 4)), is_fraud = Present True\<rparr>)
     = Fraudulent"
proof -
  let ?t1 = "\<lparr>txn_id = ''t1'', fraud_score = Present (Num (1362338887279575 / 2251799813685248)),
               is_fraud = Present False\<rparr>"
  let ?t2 = "\<lparr>txn_id = ''t2'', fraud_score = Null, is_fraud = Missing\<rparr>"
  let ?t3 = "\<lparr>txn_id = ''t3'', fraud_score = Present (Num (1 / 4)), is_fraud = Present True\<rparr>"
  let ?d = "\<lparr>transactions = [?t1, ?t2, ?t3]\<rparr>"
  note c1 = C1_mapTransactions_classification [of ?d, THEN conjunct2, THEN conjunct2]
  have p1: "(status (mapTransaction ?t1) = Pending
               \<longleftrightarrow> js_gt (riskScore (mapTransaction ?t1)) (Num 60)) \<and>
            nearest_integer (js_times (Num (1362338887279575 / 2251799813685248)) (Num 100))
              (riskScore (mapTransaction ?t1))"
  proof -
    have mem: "?t1 \<in> set (transactions ?d)" by simp
    have f: "fraud_score ?t1 = Present (Num (1362338887279575 / 2251799813685248)) \<and>
             Num (1362338887279575 / 2251799813685248) \<noteq> Num 0 \<and>
             Num (1362338887279575 / 2251799813685248) \<noteq> NaN"
      and g: "is_fraud ?t1 \<noteq> Present True"
      by simp_all
    from c1 [THEN bspec, OF mem] f g show ?thesis by blast
  qed
  have p2: "riskScore (mapTransaction ?t2) = Num 0 \<and>
            (status (mapTransaction ?t2) = Pending
               \<longleftrightarrow> js_gt (riskScore (mapTransaction ?t2)) (Num 60)) \<and>
            (\<not> js_gt (riskScore (mapTransaction ?t2)) (Num 60)
               \<longrightarrow> status (mapTransaction ?t2) = Legitimate)"
  proof -
    have mem: "?t2 \<in> set (transactions ?d)" by simp
    have f: "fraud_score ?t2 \<in> {Missing, Null, Present (Num 0), Present NaN}"
      and g: "is_fraud ?t2 \<noteq> Present True"
      by simp_all
    from c1 [THEN bspec, OF mem] f g show ?thesis by blast
  qed
  have p3: "status (mapTransaction ?t3) = Fraudulent"
  proof -
    have mem: "?t3 \<in> set (transactions ?d)" by simp
    have g: "is_fraud ?t3 = Present True" by simp
    from c1 [THEN bspec, OF mem] g show ?thesis by blast
  qed
  have prod: "js_times (Num (1362338887279575 / 2251799813685248)) (Num 100) = Num (121 / 2)"
    using double_round_eval [of 5 "1362338887279575 / 2251799813685248 * 100"]
    by (simp add: js_times_def round_half_even_def Let_def powr_neg_numeral)
  have "nearest_integer (Num (121 / 2)) (Num 61)"
    using nearest_integerI [of 61 "121 / 2"] by simp
  with p1 have r1: "riskScore (mapTransaction ?t1) = Num 61"
    unfolding prod by (blast intro: nearest_integer_unique)
  have s1: "status (mapTransaction ?t1) = Pending"
    using p1 r1 by (simp add: js_gt_def js_less_def)
  have r2: "riskScore (mapTransaction ?t2) = Num 0"
    using p2 by simp
  have s2: "status (mapTransaction ?t2) = Legitimate"
    using p2 by (simp add: js_gt_def js_less_def)
  have s3: "status (mapTransaction ?t3) = Fraudulent"
    by (rule p3)
  show ?thesis
    using prod r1 s1 r2 s2 s3 by simp
qed

section \<open>Risk filter and risk badge\<close>

lemma level_name_neq: "level_name r \<noteq> []" "level_name r \<noteq> ''all''"
  by (cases r; simp)+

lemma in_risk_interval_level:
  assumes "riskScore tx = Num (of_int n)" and "0 \<le> n" and "n \<le> 100"
  shows "in_risk_interval (level_name r) tx \<longleftrightarrow> getRiskLevel (riskScore tx) = r"
  using assms
  by (cases r)
     (auto simp: in_risk_interval_def risk_interval_def riskMap_def getRiskLevel_def
        js_ge_def js_le_def js_less_def)

text \<open>
  C2. When every risk score is an integer between 0 and 100, filtering by the risk
  level \<open>r\<close> keeps exactly the transactions to which the badge classifier
  \<open>getRiskLevel\<close> assigns \<open>r\<close>, whatever the other two filters are.
\<close>

theorem C2_filter_agrees_with_badge:
  assumes "\<forall>tx \<in> set txs. \<exists>n :: int. riskScore tx = Num (of_int n) \<and> 0 \<le> n \<and> n \<le> 100"
  shows "filteredTransactions lc (fs\<lparr>riskLevel := Some (level_name r)\<rparr>) txs =
         filter (\<lambda>tx. getRiskLevel (riskScore tx) = r)
           (filteredTransactions lc (fs\<lparr>riskLevel := None\<rparr>) txs)"
proof -
  have eq: "filter (in_risk_interval (level_name r)) ys = filter (\<lambda>tx. getRiskLevel (riskScore tx) = r) ys"
    if "set ys \<subseteq> set txs" for ys
  proof (rule filter_cong [OF refl])
    fix tx assume "tx \<in> set ys"
    with that assms obtain n :: int where "riskScore tx = Num (of_int n)" "0 \<le> n" "n \<le> 100"
      by blast
    then show "in_risk_interval (level_name r) tx \<longleftrightarrow> getRiskLevel (riskScore tx) = r"
      by (rule in_risk_interval_level)
  qed
  show ?thesis
    by (simp add: filteredTransactions_def Let_def set_not_all_def set_filter_def level_name_neq eq)
qed

theorem C2_filter_agrees_with_badge_witness:
  "riskScore \<lparr>id = ''a'', riskScore = Num 69, status = Pending\<rparr> = Num (of_int 69) \<and>
   (0::int) \<le> 69 \<and> (69::int) \<le> 100 \<and>
   riskScore \<lparr>id = ''b'', riskScore = Num 70, status = Pending\<rparr> = Num (of_int 70) \<and>
   (0::int) \<le> 70 \<and> (70::int) \<le> 100 \<and>
   filteredTransactions (\<lambda>s. s) \<lparr>searchId = None, status_filter = None, riskLevel = Some ''high''\<rparr>
      [\<lparr>id = ''a'', riskScore = Num 69, status = Pending\<rparr>,
       \<lparr>id = ''b'', riskScore = Num 70, status = Pending\<rparr>] =
      [\<lparr>id = ''b'', riskScore = Num 70, status = Pending\<rparr>]"
proof -
  have scores: "\<forall>tx \<in> set [\<lparr>id = ''a'', riskScore = Num 69, status = Pending\<rparr>,
                             \<lparr>id = ''b'', riskScore = Num 70, status = Pending\<rparr>].
      \<exists>n :: int. riskScore tx = Num (of_int n) \<and> 0 \<le> n \<and> n \<le> 100"
    by (auto intro: exI [of _ 69] exI [of _ 70])
  show ?thesis
    using C2_filter_agrees_with_badge [OF scores, where lc = "\<lambda>s. s"
        and fs = "\<lparr>searchId = None, status_filter = None, riskLevel = None\<rparr>" and r = High]
    by (simp add: getRiskLevel_def js_ge_def js_le_def js_less_def filteredTransactions_def
        set_not_all_def set_filter_def)
qed

section \<open>Pagination of the transactions table\<close>

text \<open>
  On a list that is not empty the page stays between 1 and \<open>totalPages\<close>, every page
  has at most 10 rows, and page \<open>p\<close> shows the rows from index \<open>(p - 1) * 10\<close> up to
  \<open>min (p * 10) n\<close>.
\<close>

lemma totalPages_div: "totalPages txs = (int (length txs) + 9) div 10"
  unfolding totalPages_def itemsPerPage_def by linarith

lemma click_in_range:
  "txs \<noteq> [] \<Longrightarrow> 1 \<le> p \<Longrightarrow> p \<le> totalPages txs \<Longrightarrow>
   1 \<le> click txs p b \<and> click txs p b \<le> totalPages txs"
  by (cases b) (auto simp: click_def)

lemma clicks_in_range:
  "txs \<noteq> [] \<Longrightarrow> 1 \<le> clicks txs bs \<and> clicks txs bs \<le> totalPages txs"
proof (induction bs rule: rev_induct)
  case Nil
  then have "0 < int (length txs)" by simp
  then have "1 \<le> (int (length txs) + 9) div 10" by linarith
  then show ?case by (simp add: clicks_def totalPages_div)
next
  case (snoc b bs)
  then show ?case
    using click_in_range [of txs "clicks txs bs" b] by (simp add: clicks_def)
qed

lemma relative_index_gap:
  "0 \<le> len \<Longrightarrow> relative_index len (s + 10) - relative_index len s \<le> 10"
  by (auto simp: relative_index_def)

lemma page_at_most_ten: "length (currentTransactions txs p) \<le> 10"
proof -
  let ?len = "int (length txs)"
  let ?k = "relative_index ?len (startIndex p)"
  let ?final = "relative_index ?len (startIndex p + 10)"
  have "length (currentTransactions txs p) \<le> nat (max (?final - ?k) 0)"
    by (simp add: currentTransactions_def slice_js_def Let_def endIndex_def itemsPerPage_def)
  moreover have "?final - ?k \<le> 10"
    by (rule relative_index_gap) simp
  ultimately show ?thesis by linarith
qed

lemma page_is_slice:
  "1 \<le> p \<Longrightarrow>
   currentTransactions txs p = take 10 (drop (nat ((p - 1) * 10)) txs)"
  by (auto simp: currentTransactions_def slice_js_def Let_def relative_index_def
      startIndex_def endIndex_def itemsPerPage_def min_def max_def)

lemma page_indices:
  "1 \<le> p \<Longrightarrow> i < length (currentTransactions txs p) \<Longrightarrow>
   currentTransactions txs p ! i = txs ! (nat ((p - 1) * 10) + i) \<and>
   int (nat ((p - 1) * 10) + i) < min (p * 10) (int (length txs))"
  by (auto simp: page_is_slice)

text \<open>
  C3. On the empty list \<open>totalPages\<close> is 0 while the page starts at 1, so the Next
  button is enabled; one click on it sets the page to \<open>min 0 2 = 0\<close>, below the range
  the claim gives, and the start index of the slice becomes \<open>- 10\<close>.
\<close>

theorem C3_next_on_empty_list:
  "\<not> button_disabled ([] :: table_transaction list) 1 NextPage \<and>
   clicks ([] :: table_transaction list) [NextPage] = 0 \<and>
   startIndex (clicks ([] :: table_transaction list) [NextPage]) = - 10 \<and>
   \<not> (1 \<le> clicks ([] :: table_transaction list) [NextPage])"
  by (simp add: clicks_def click_def totalPages_def startIndex_def itemsPerPage_def)

section \<open>OAuth tokens are stored only as a pair\<close>

lemma truthy_str_Some: "truthy_str v \<Longrightarrow> \<exists>s. v = Some s \<and> s \<noteq> []"
  by (cases v) (auto simp: truthy_str_def)

lemma setItems_all_accepted:
  "\<forall>s. accepts s \<Longrightarrow> setItems accepts kvs s = (foldl (\<lambda>s (k, v). s(k \<mapsto> v)) s kvs, True)"
  by (induction kvs arbitrary: s) (auto simp: setItem_def)

lemma setItems_frame:
  "k \<notin> fst ` set kvs \<Longrightarrow> fst (setItems accepts kvs s) k = s k"
  by (induction kvs arbitrary: s) (auto simp: setItem_def)

lemma oauth_effect_storage:
  "localStorage (oauth_effect accepts URLSearchParams b) =
     (if strip_hash (hash b) \<noteq> [] \<and>
         truthy_str (params_get (URLSearchParams (strip_hash (hash b))) ''access_token'') \<and>
         truthy_str (params_get (URLSearchParams (strip_hash (hash b))) ''refresh_token'')
      then fst (setItems accepts (oauth_writes (URLSearchParams (strip_hash (hash b))))
                  (localStorage b))
      else localStorage b)"
  by (auto simp: oauth_effect_def Let_def split: prod.splits bool.splits)

text \<open>
  C4 (amended). If \<open>access_token\<close> or \<open>refresh_token\<close> is absent from the fragment, the
  effect leaves the whole browser state as it was: no key is written. Whenever local
  storage changes, both tokens were present. When both are present and not empty and
  the browser takes every write, both are stored. The writes are made in the order of
  the source and are not undone: \<open>refresh_token\<close> is never written without
  \<open>access_token\<close> having been written before it.
\<close>

theorem C4_oauth_tokens_only_when_both:
  "(params_get (URLSearchParams (strip_hash (hash b))) ''access_token'' = None \<or>
    params_get (URLSearchParams (strip_hash (hash b))) ''refresh_token'' = None
      \<longrightarrow> oauth_effect accepts URLSearchParams b = b) \<and>
   (localStorage (oauth_effect accepts URLSearchParams b) \<noteq> localStorage b
      \<longrightarrow> (\<exists>a r. params_get (URLSearchParams (strip_hash (hash b))) ''access_token'' = Some a \<and>
                 params_get (URLSearchParams (strip_hash (hash b))) ''refresh_token'' = Some r)) \<and>
   ((\<forall>s. accepts s) \<and>
    params_get (URLSearchParams (strip_hash (hash b))) ''access_token'' = Some a \<and> a \<noteq> [] \<and>
    params_get (URLSearchParams (strip_hash (hash b))) ''refresh_token'' = Some r \<and> r \<noteq> [] \<and>
    strip_hash (hash b) \<noteq> []
      \<longrightarrow> localStorage (oauth_effect accepts URLSearchParams b) ''access_token'' = Some a \<and>
          localStorage (oauth_effect accepts URLSearchParams b) ''refresh_token'' = Some r) \<and>
   (localStorage (oauth_effect accepts URLSearchParams b) ''refresh_token''
      \<noteq> localStorage b ''refresh_token''
      \<longrightarrow> localStorage (oauth_effect accepts URLSearchParams b) ''access_token'' =
            params_get (URLSearchParams (strip_hash (hash b))) ''access_token'')"
proof (intro conjI impI)
  assume "params_get (URLSearchParams (strip_hash (hash b))) ''access_token'' = None \<or>
    params_get (URLSearchParams (strip_hash (hash b))) ''refresh_token'' = None"
  then show "oauth_effect accepts URLSearchParams b = b"
    by (auto simp: oauth_effect_def Let_def truthy_str_def)
next
  assume ch: "localStorage (oauth_effect accepts URLSearchParams b) \<noteq> localStorage b"
  have "truthy_str (params_get (URLSearchParams (strip_hash (hash b))) ''access_token'') \<and>
        truthy_str (params_get (URLSearchParams (strip_hash (hash b))) ''refresh_token'')"
    using ch by (auto simp: oauth_effect_def Let_def split: if_splits)
  then show "\<exists>a r. params_get (URLSearchParams (strip_hash (hash b))) ''access_token'' = Some a \<and>
                 params_get (URLSearchParams (strip_hash (hash b))) ''refresh_token'' = Some r"
    by (auto dest!: truthy_str_Some)
next
  assume h: "(\<forall>s. accepts s) \<and>
    params_get (URLSearchParams (strip_hash (hash b))) ''access_token'' = Some a \<and> a \<noteq> [] \<and>
    params_get (URLSearchParams (strip_hash (hash b))) ''refresh_token'' = Some r \<and> r \<noteq> [] \<and>
    strip_hash (hash b) \<noteq> []"
  then have acc: "\<forall>s. accepts s" by simp
  let ?params = "URLSearchParams (strip_hash (hash b))"
  have eff: "localStorage (oauth_effect accepts URLSearchParams b) =
             foldl (\<lambda>s (k, v). s(k \<mapsto> v)) (localStorage b) (oauth_writes ?params)"
    using h by (simp add: oauth_effect_def Let_def truthy_str_def setItems_all_accepted [OF acc])
  have wr: "oauth_writes ?params = (''access_token'', a) # (''refresh_token'', r) #
            drop 2 (oauth_writes ?params)"
    using h by (simp add: oauth_writes_def Let_def)
  have keep: "k \<notin> fst ` set kvs \<Longrightarrow> foldl (\<lambda>s (k, v). s(k \<mapsto> v)) s kvs k = s k"
    for kvs :: "(string \<times> string) list" and s k
    by (induction kvs arbitrary: s) auto
  have rest: "fst ` set (drop 2 (oauth_writes ?params)) \<subseteq> {''user_email'', ''user_name''}"
    by (auto simp: oauth_writes_def Let_def)
  have na: "''access_token'' \<notin> fst ` set (drop 2 (oauth_writes ?params))"
    and nr: "''refresh_token'' \<notin> fst ` set (drop 2 (oauth_writes ?params))"
    using rest by auto
  show "localStorage (oauth_effect accepts URLSearchParams b) ''access_token'' = Some a"
    unfolding eff by (subst wr) (simp add: keep [OF na])
  show "localStorage (oauth_effect accepts URLSearchParams b) ''refresh_token'' = Some r"
    unfolding eff by (subst wr) (simp add: keep [OF nr])
next
  let ?params = "URLSearchParams (strip_hash (hash b))"
  let ?s0 = "localStorage b"
  assume ch: "localStorage (oauth_effect accepts URLSearchParams b) ''refresh_token''
                \<noteq> localStorage b ''refresh_token''"
  then have br: "strip_hash (hash b) \<noteq> [] \<and> truthy_str (params_get ?params ''access_token'') \<and>
                 truthy_str (params_get ?params ''refresh_token'')"
    unfolding oauth_effect_storage by (auto split: if_splits)
  then obtain a where a: "params_get ?params ''access_token'' = Some a"
    by (auto dest!: truthy_str_Some)
  have eff: "localStorage (oauth_effect accepts URLSearchParams b) =
             fst (setItems accepts (oauth_writes ?params) ?s0)"
    unfolding oauth_effect_storage using br by simp
  have wr: "oauth_writes ?params = (''access_token'', a) # tl (oauth_writes ?params)"
    and rest: "''access_token'' \<notin> fst ` set (tl (oauth_writes ?params))"
    using a by (auto simp: oauth_writes_def Let_def)
  show "localStorage (oauth_effect accepts URLSearchParams b) ''access_token'' =
          params_get ?params ''access_token''"
  proof (cases "setItem accepts ''access_token'' a ?s0")
    case None
    then have "fst (setItems accepts (oauth_writes ?params) ?s0) = ?s0"
      by (subst wr) simp
    with ch eff show ?thesis by simp
  next
    case (Some s1)
    then have s1: "s1 = ?s0(''access_token'' \<mapsto> a)"
      by (auto simp: setItem_def split: if_splits)
    from Some have "fst (setItems accepts (oauth_writes ?params) ?s0) =
                    fst (setItems accepts (tl (oauth_writes ?params)) s1)"
      by (subst wr) simp
    then have "localStorage (oauth_effect accepts URLSearchParams b) ''access_token'' =
               s1 ''access_token''"
      unfolding eff by (simp add: setItems_frame [OF rest])
    then show ?thesis by (simp add: s1 a)
  qed
qed


theorem C4_oauth_tokens_only_when_both_witness:
  "params_get ((\<lambda>h. [(''access_token'', ''abc'')])
      (strip_hash (hash \<lparr>localStorage = Map.empty, hash = ''#access_token=abc'',
                          events = [], route = None\<rparr>))) ''refresh_token'' = None \<and>
   oauth_effect (\<lambda>s. True) (\<lambda>h. [(''access_token'', ''abc'')])
      \<lparr>localStorage = Map.empty, hash = ''#access_token=abc'', events = [], route = None\<rparr> =
      \<lparr>localStorage = Map.empty, hash = ''#access_token=abc'', events = [], route = None\<rparr> \<and>
   localStorage (oauth_effect (\<lambda>s. True)
      (\<lambda>h. [(''access_token'', ''abc''), (''refresh_token'', ''def'')])
      \<lparr>localStorage = Map.empty, hash = ''#access_token=abc&refresh_token=def'',
        events = [], route = None\<rparr>) ''access_token'' = Some ''abc'' \<and>
   localStorage (oauth_effect (\<lambda>s. True)
      (\<lambda>h. [(''access_token'', ''abc''), (''refresh_token'', ''def'')])
      \<lparr>localStorage = Map.empty, hash = ''#access_token=abc&refresh_token=def'',
        events = [], route = None\<rparr>) ''refresh_token'' = Some ''def'' \<and>
   localStorage (oauth_effect (\<lambda>s. True)
      (\<lambda>h. [(''access_token'', ''abc''), (''refresh_token'', ''def'')])
      \<lparr>localStorage = Map.empty, hash = ''#access_token=abc&refresh_token=def'',
        events = [], route = None\<rparr>) \<noteq> Map.empty"
  using C4_oauth_tokens_only_when_both
      [where URLSearchParams = "\<lambda>h. [(''access_token'', ''abc'')]" and accepts = "\<lambda>s. True"
       and b = "\<lparr>localStorage = Map.empty, hash = ''#access_token=abc'', events = [], route = None\<rparr>"]
    C4_oauth_tokens_only_when_both
      [where URLSearchParams = "\<lambda>h. [(''access_token'', ''abc''), (''refresh_token'', ''def'')]"
       and accepts = "\<lambda>s. True" and a = "''abc''" and r = "''def''"
       and b = "\<lparr>localStorage = Map.empty, hash = ''#access_token=abc&refresh_token=def'',
                 events = [], route = None\<rparr>"]
  by (simp add: params_get_def strip_hash_def) (metis option.distinct(1))

text \<open>
  C4 as stated, with the storage of the pair called atomic, fails when the browser
  refuses the second write: \<open>access_token\<close> is then stored and \<open>refresh_token\<close> is not,
  and nothing undoes the first write.
\<close>

theorem C4_second_write_refused_counterexample:
  "localStorage (oauth_effect (\<lambda>s. s ''refresh_token'' = None)
      (\<lambda>h. [(''access_token'', ''abc''), (''refresh_token'', ''def'')])
      \<lparr>localStorage = Map.empty, hash = ''#access_token=abc&refresh_token=def'',
        events = [], route = None\<rparr>) ''access_token'' = Some ''abc'' \<and>
   localStorage (oauth_effect (\<lambda>s. s ''refresh_token'' = None)
      (\<lambda>h. [(''access_token'', ''abc''), (''refresh_token'', ''def'')])
      \<lparr>localStorage = Map.empty, hash = ''#access_token=abc&refresh_token=def'',
        events = [], route = None\<rparr>) ''refresh_token'' = None \<and>
   route (oauth_effect (\<lambda>s. s ''refresh_token'' = None)
      (\<lambda>h. [(''access_token'', ''abc''), (''refresh_token'', ''def'')])
      \<lparr>localStorage = Map.empty, hash = ''#access_token=abc&refresh_token=def'',
        events = [], route = None\<rparr>) = None"
  by (simp add: oauth_effect_def strip_hash_def params_get_def truthy_str_def oauth_writes_def
      setItem_def)

section \<open>History: classification of predictions and the exported CSV text\<close>

lemma split_on_nonempty: "split_on c s \<noteq> []"
  by (induction s) (auto split: list.splits)

lemma split_on_append: "split_on c (a @ c # b) = split_on c a @ split_on c b"
  by (induction a) (auto split: list.splits simp: split_on_nonempty)

lemma split_on_absent: "c \<notin> set s \<Longrightarrow> split_on c s = [s]"
  by (induction s) auto

lemma split_on_present: "c \<in> set s \<Longrightarrow> length (split_on c s) > 1"
  by (induction s) (auto split: list.splits simp: split_on_nonempty)

lemma split_on_join:
  "xs \<noteq> [] \<Longrightarrow> split_on c (join [c] xs) = concat (map (split_on c) xs)"
  by (induction "[c]" xs rule: join.induct) (auto simp: split_on_append)

lemma set_join: "set (join sep xs) \<subseteq> set sep \<union> \<Union> (set ` set xs)"
  by (induction sep xs rule: join.induct) auto

lemma set_join_ge: "\<Union> (set ` set xs) \<subseteq> set (join sep xs)"
  by (induction sep xs rule: join.induct) auto

lemma concat_split_absent:
  "\<forall>x \<in> set xs. c \<notin> set x \<Longrightarrow> concat (map (split_on c) xs) = xs"
  by (induction xs) (auto simp: split_on_absent)

lemma length_concat_split_ge: "length (concat (map (split_on c) xs)) \<ge> length xs"
proof (induction xs)
  case Nil
  show ?case by simp
next
  case (Cons x xs)
  have "length (split_on c x) \<ge> 1"
    using split_on_nonempty [of c x] by (cases "split_on c x") auto
  with Cons show ?case by simp
qed

lemma length_concat_split_gt:
  "\<exists>x \<in> set xs. c \<in> set x \<Longrightarrow> length (concat (map (split_on c) xs)) > length xs"
proof (induction xs)
  case Nil
  then show ?case by simp
next
  case (Cons x xs)
  have one: "length (split_on c x) \<ge> 1"
    using split_on_nonempty [of c x] by (cases "split_on c x") auto
  show ?case
  proof (cases "c \<in> set x")
    case True
    then have "length (split_on c x) > 1" by (rule split_on_present)
    with length_concat_split_ge [of xs c] show ?thesis by simp
  next
    case False
    with Cons.prems have "\<exists>x \<in> set xs. c \<in> set x" by auto
    with Cons.IH one show ?thesis by simp
  qed
qed


lemma csv_header_clean: "CHR 0x0A \<notin> set (join '','' csv_header)"
  by (simp add: csv_header_def)

lemma line_clean:
  assumes "\<forall>f \<in> set cells. CHR 0x0A \<notin> set f"
  shows "CHR 0x0A \<notin> set (join '','' cells)"
proof
  assume "CHR 0x0A \<in> set (join '','' cells)"
  then have "CHR 0x0A \<in> set '','' \<union> \<Union> (set ` set cells)"
    using set_join [of "'',''" cells] by blast
  with assms show False by auto
qed

lemma line_dirty:
  assumes "f \<in> set cells" and "c \<in> set f"
  shows "c \<in> set (join sep cells)"
  using assms set_join_ge [of cells sep] by blast

text \<open>
  C9. The exported text is the header line and one line per record, in display order,
  joined by newlines; each line is the six cells of its record joined by commas, with
  no quoting. Cut at newlines the text gives back exactly these \<open>n + 1\<close> lines when no
  cell contains a newline, and more than \<open>n + 1\<close> pieces when some cell does. Cut at
  commas a line gives back its six cells when none contains a comma, and more than six
  columns when one does.
\<close>

theorem C9_csv_export_structure:
  "handleExport_csv toFixed toString fd = join [CHR 0x0A] (csv_lines toFixed toString fd) \<and>
   csv_lines toFixed toString fd =
     join '','' csv_header # map (\<lambda>r. join '','' (csv_row toFixed toString r)) fd \<and>
   length (csv_lines toFixed toString fd) = Suc (length fd) \<and>
   (\<forall>r \<in> set fd.
      csv_row toFixed toString r =
        [timestamp r, transactionId r, cardNumber r, status_name (result r),
         toFixed (confidence r) 1, toString (processingTime r)]) \<and>
   ((\<forall>r \<in> set fd. \<forall>f \<in> set (csv_row toFixed toString r). CHR 0x0A \<notin> set f) \<longrightarrow>
      split_on (CHR 0x0A) (handleExport_csv toFixed toString fd) = csv_lines toFixed toString fd) \<and>
   ((\<exists>r \<in> set fd. \<exists>f \<in> set (csv_row toFixed toString r). CHR 0x0A \<in> set f) \<longrightarrow>
      length (split_on (CHR 0x0A) (handleExport_csv toFixed toString fd)) > Suc (length fd)) \<and>
   (\<forall>r \<in> set fd.
      ((\<forall>f \<in> set (csv_row toFixed toString r). CHR '','' \<notin> set f) \<longrightarrow>
         split_on (CHR '','') (join '','' (csv_row toFixed toString r)) = csv_row toFixed toString r) \<and>
      ((\<exists>f \<in> set (csv_row toFixed toString r). CHR '','' \<in> set f) \<longrightarrow>
         length (split_on (CHR '','') (join '','' (csv_row toFixed toString r))) > 6))"
proof -
  let ?row = "csv_row toFixed toString"
  let ?lines = "csv_lines toFixed toString fd"
  let ?csv = "handleExport_csv toFixed toString fd"
  have lines: "?lines = join '','' csv_header # map (\<lambda>r. join '','' (?row r)) fd"
    by (simp add: csv_lines_def comp_def)
  have len: "length ?lines = Suc (length fd)"
    by (simp add: csv_lines_def)
  have six: "length (?row r) = 6" for r
    by (simp add: csv_row_def)
  have ne: "?lines \<noteq> []" "?row r \<noteq> []" for r
    by (simp_all add: csv_lines_def csv_row_def)
  have split_csv: "split_on (CHR 0x0A) ?csv = concat (map (split_on (CHR 0x0A)) ?lines)"
    unfolding handleExport_csv_def by (rule split_on_join [OF ne(1)])
  have split_row: "split_on (CHR '','') (join '','' (?row r)) =
                   concat (map (split_on (CHR '','')) (?row r))" for r
    by (rule split_on_join [OF ne(2)])
  have clean: "split_on (CHR 0x0A) ?csv = ?lines"
    if "\<forall>r \<in> set fd. \<forall>f \<in> set (?row r). CHR 0x0A \<notin> set f"
  proof -
    have "\<forall>l \<in> set ?lines. CHR 0x0A \<notin> set l"
      using that by (auto simp: lines csv_header_clean line_clean)
    then show ?thesis
      unfolding split_csv by (rule concat_split_absent)
  qed
  have dirty: "length (split_on (CHR 0x0A) ?csv) > Suc (length fd)"
    if "\<exists>r \<in> set fd. \<exists>f \<in> set (?row r). CHR 0x0A \<in> set f"
  proof -
    from that obtain r f where "r \<in> set fd" "f \<in> set (?row r)" "CHR 0x0A \<in> set f"
      by blast
    then have "join '','' (?row r) \<in> set ?lines" "CHR 0x0A \<in> set (join '','' (?row r))"
      by (auto simp: lines line_dirty)
    then have "\<exists>l \<in> set ?lines. CHR 0x0A \<in> set l"
      by blast
    then have "length (concat (map (split_on (CHR 0x0A)) ?lines)) > length ?lines"
      by (rule length_concat_split_gt)
    then show ?thesis
      by (simp only: split_csv len)
  qed
  have cols_clean: "split_on (CHR '','') (join '','' (?row r)) = ?row r"
    if "\<forall>f \<in> set (?row r). CHR '','' \<notin> set f" for r
    unfolding split_row using that by (rule concat_split_absent)
  have cols_dirty: "length (split_on (CHR '','') (join '','' (?row r))) > 6"
    if "\<exists>f \<in> set (?row r). CHR '','' \<in> set f" for r
    using length_concat_split_gt [OF that] by (simp only: split_row six)
  have row: "?row r = [timestamp r, transactionId r, cardNumber r, status_name (result r),
                       toFixed (confidence r) 1, toString (processingTime r)]" for r
    by (simp add: csv_row_def)
  show ?thesis
    using lines len row clean dirty cols_clean cols_dirty
    by (intro conjI ballI impI) (simp_all only: handleExport_csv_def)
qed


theorem C9_csv_export_structure_witness:
  "split_on (CHR 0x0A)
     (handleExport_csv (\<lambda>x n. ''97.3'') (\<lambda>x. ''12'')
        [example_record ''1/5/2025, 3:04:05 PM'', example_record ''2025-01-05'']) =
     [''Timestamp,Transaction ID,Card,Result,Confidence,Processing Time'',
      ''1/5/2025, 3:04:05 PM,AB12CD34,**** 1234,pending,97.3,12'',
      ''2025-01-05,AB12CD34,**** 1234,pending,97.3,12''] \<and>
   split_on (CHR '','')
     (join '','' (csv_row (\<lambda>x n. ''97.3'') (\<lambda>x. ''12'') (example_record ''2025-01-05''))) =
     [''2025-01-05'', ''AB12CD34'', ''**** 1234'', ''pending'', ''97.3'', ''12''] \<and>
   6 < length (split_on (CHR '','')
     (join '','' (csv_row (\<lambda>x n. ''97.3'') (\<lambda>x. ''12'')
        (example_record ''1/5/2025, 3:04:05 PM'')))) \<and>
   Suc (length [example_record [CHR ''a'', CHR 0x0A, CHR ''b'']]) <
     length (split_on (CHR 0x0A)
       (handleExport_csv (\<lambda>x n. ''97.3'') (\<lambda>x. ''12'')
          [example_record [CHR ''a'', CHR 0x0A, CHR ''b'']]))"
  using C9_csv_export_structure
      [where toFixed = "\<lambda>x n. ''97.3''" and toString = "\<lambda>x. ''12''"
       and fd = "[example_record ''1/5/2025, 3:04:05 PM'', example_record ''2025-01-05'']"]
    C9_csv_export_structure
      [where toFixed = "\<lambda>x n. ''97.3''" and toString = "\<lambda>x. ''12''"
       and fd = "[example_record [CHR ''a'', CHR 0x0A, CHR ''b'']]"]
  by (simp add: csv_lines_def csv_row_def csv_header_def example_record_def)



section \<open>Analytics: legitimate counts and the order of the trend chart\<close>

lemma mset_js_insort: "mset (js_insort cmp x xs) = add_mset x (mset xs)"
  by (induction xs) auto

lemma mset_js_sort: "mset (js_sort cmp xs) = mset xs"
  by (induction xs) (auto simp: js_sort_def mset_js_insort)

lemma set_js_sort: "set (js_sort cmp xs) = set xs"
  using mset_js_sort [of cmp xs] by (metis set_mset_mset)

lemma positive_compare_dates:
  "getTime (date a) \<noteq> None \<Longrightarrow> getTime (date b) \<noteq> None \<Longrightarrow>
   positive (compare_dates getTime a b) \<longleftrightarrow> trend_time getTime a > trend_time getTime b"
  by (auto simp: positive_def compare_dates_def trend_time_def)

lemma js_insort_dates:
  "getTime (date x) \<noteq> None \<Longrightarrow> \<forall>t \<in> set xs. getTime (date t) \<noteq> None \<Longrightarrow>
   js_insort (compare_dates getTime) x xs = insort_key (trend_time getTime) x xs"
  by (induction xs) (auto simp: positive_compare_dates)

lemma js_sort_dates:
  "\<forall>t \<in> set xs. getTime (date t) \<noteq> None \<Longrightarrow>
   js_sort (compare_dates getTime) xs = sort_key (trend_time getTime) xs"
proof (induction xs)
  case Nil
  show ?case by (simp add: js_sort_def)
next
  case (Cons x xs)
  then have ih: "js_sort (compare_dates getTime) xs = sort_key (trend_time getTime) xs"
    by simp
  have "\<forall>t \<in> set (sort_key (trend_time getTime) xs). getTime (date t) \<noteq> None"
    using Cons.prems by simp
  then have "js_insort (compare_dates getTime) x (sort_key (trend_time getTime) xs) =
             insort_key (trend_time getTime) x (sort_key (trend_time getTime) xs)"
    using Cons.prems by (intro js_insort_dates) simp_all
  then show ?case
    using ih by (simp add: js_sort_def sort_key_def)
qed

lemma fraudTrendsData_Some:
  "a < length h \<Longrightarrow>
   fraudTrendsData getTime lbl h (Some a) =
     (h @ [js_sort (compare_dates getTime) (h ! a)],
      map (trend_to_point lbl) (js_sort (compare_dates getTime) (h ! a)))"
  by (simp add: fraudTrendsData_def array_slice_def array_sort_def array_map_def nth_append)


text \<open>
  C6. Every charted trend point and every charted merchant category carries the fraud
  count of its entry and, as legitimate count, the total minus the fraud count, so the
  two charted values add up to the total.
\<close>

theorem C6_legitimate_is_total_minus_fraud:
  "(a < length h \<longrightarrow>
      length (snd (fraudTrendsData getTime lbl h (Some a))) = length (h ! a) \<and>
      (\<forall>i < length (h ! a).
         point_fraud (snd (fraudTrendsData getTime lbl h (Some a)) ! i) =
           fraud_transactions (js_sort (compare_dates getTime) (h ! a) ! i) \<and>
         point_legitimate (snd (fraudTrendsData getTime lbl h (Some a)) ! i) =
           total_transactions (js_sort (compare_dates getTime) (h ! a) ! i) -
           fraud_transactions (js_sort (compare_dates getTime) (h ! a) ! i) \<and>
         point_fraud (snd (fraudTrendsData getTime lbl h (Some a)) ! i) +
         point_legitimate (snd (fraudTrendsData getTime lbl h (Some a)) ! i) =
           total_transactions (js_sort (compare_dates getTime) (h ! a) ! i))) \<and>
   length (merchantChartData (Some items)) = length items \<and>
   (\<forall>i < length items.
      bar_fraud (merchantChartData (Some items) ! i) = fraud_count (items ! i) \<and>
      bar_legitimate (merchantChartData (Some items) ! i) =
        transaction_count (items ! i) - fraud_count (items ! i) \<and>
      bar_fraud (merchantChartData (Some items) ! i) +
      bar_legitimate (merchantChartData (Some items) ! i) = transaction_count (items ! i))"
proof -
  have len: "length (js_sort (compare_dates getTime) (h ! a)) = length (h ! a)"
    using mset_js_sort [of "compare_dates getTime" "h ! a"] by (metis size_mset)
  have trends: "length (snd (fraudTrendsData getTime lbl h (Some a))) = length (h ! a) \<and>
      (\<forall>i < length (h ! a).
         point_fraud (snd (fraudTrendsData getTime lbl h (Some a)) ! i) =
           fraud_transactions (js_sort (compare_dates getTime) (h ! a) ! i) \<and>
         point_legitimate (snd (fraudTrendsData getTime lbl h (Some a)) ! i) =
           total_transactions (js_sort (compare_dates getTime) (h ! a) ! i) -
           fraud_transactions (js_sort (compare_dates getTime) (h ! a) ! i) \<and>
         point_fraud (snd (fraudTrendsData getTime lbl h (Some a)) ! i) +
         point_legitimate (snd (fraudTrendsData getTime lbl h (Some a)) ! i) =
           total_transactions (js_sort (compare_dates getTime) (h ! a) ! i))"
    if "a < length h"
    by (simp add: fraudTrendsData_Some [OF that] len trend_to_point_def)
  have merchants: "length (merchantChartData (Some items)) = length items \<and>
   (\<forall>i < length items.
      bar_fraud (merchantChartData (Some items) ! i) = fraud_count (items ! i) \<and>
      bar_legitimate (merchantChartData (Some items) ! i) =
        transaction_count (items ! i) - fraud_count (items ! i) \<and>
      bar_fraud (merchantChartData (Some items) ! i) +
      bar_legitimate (merchantChartData (Some items) ! i) = transaction_count (items ! i))"
    by (simp add: merchantChartData_def merchant_to_point_def)
  show ?thesis
    using trends merchants by blast
qed

theorem C6_legitimate_is_total_minus_fraud_witness:
  "(0::nat) < length [example_trends] \<and>
   (1::nat) < length ([example_trends] ! 0) \<and>
   point_fraud (snd (fraudTrendsData example_times (\<lambda>s. s) [example_trends] (Some 0)) ! 1) = 0 \<and>
   point_legitimate (snd (fraudTrendsData example_times (\<lambda>s. s) [example_trends] (Some 0)) ! 1) = 20 \<and>
   (0::nat) < length [\<lparr>category = ''grocery'', transaction_count = 12, fraud_count = 5\<rparr>] \<and>
   bar_fraud (merchantChartData
      (Some [\<lparr>category = ''grocery'', transaction_count = 12, fraud_count = 5\<rparr>]) ! 0) = 5 \<and>
   bar_legitimate (merchantChartData
      (Some [\<lparr>category = ''grocery'', transaction_count = 12, fraud_count = 5\<rparr>]) ! 0) = 7"
  using C6_legitimate_is_total_minus_fraud
    [where a = 0 and h = "[example_trends]" and getTime = example_times and lbl = "\<lambda>s. s"
     and items = "[\<lparr>category = ''grocery'', transaction_count = 12, fraud_count = 5\<rparr>]"]
  by (simp add: example_trends_def example_times_def js_sort_def compare_dates_def positive_def)

text \<open>
  C7. When every date of the trends is a valid date, the chart data are the points of
  the trends in non-decreasing order of their times, whatever the order in the array
  was: the sorted array is a permutation of the trends. The sort works on a copy: the
  arrays that were in the store, the trends array among them, are unchanged.
\<close>

theorem C7_trends_sorted_copy:
  assumes "a < length h" and "\<forall>t \<in> set (h ! a). getTime (date t) \<noteq> None"
  shows "snd (fraudTrendsData getTime lbl h (Some a)) =
           map (trend_to_point lbl) (js_sort (compare_dates getTime) (h ! a)) \<and>
         sorted (map (trend_time getTime) (js_sort (compare_dates getTime) (h ! a))) \<and>
         mset (js_sort (compare_dates getTime) (h ! a)) = mset (h ! a) \<and>
         take (length h) (fst (fraudTrendsData getTime lbl h (Some a))) = h \<and>
         fst (fraudTrendsData getTime lbl h (Some a)) ! a = h ! a"
proof -
  have srt: "js_sort (compare_dates getTime) (h ! a) = sort_key (trend_time getTime) (h ! a)"
    using assms(2) by (rule js_sort_dates)
  have "sorted (map (trend_time getTime) (js_sort (compare_dates getTime) (h ! a)))"
    unfolding srt by (rule sorted_sort_key)
  moreover have "fst (fraudTrendsData getTime lbl h (Some a)) ! a = h ! a"
    using assms(1) by (simp add: fraudTrendsData_Some nth_append)
  ultimately show ?thesis
    using assms(1) by (simp add: fraudTrendsData_Some mset_js_sort)
qed

theorem C7_trends_sorted_copy_witness:
  "(0::nat) < length [example_trends] \<and>
   example_times ''2025-01-03'' \<noteq> None \<and> example_times ''2025-01-01'' \<noteq> None \<and>
   example_times ''2025-01-02'' \<noteq> None \<and>
   map point_date (snd (fraudTrendsData example_times (\<lambda>s. s) [example_trends] (Some 0))) =
     [''2025-01-01'', ''2025-01-02'', ''2025-01-03''] \<and>
   map date (fst (fraudTrendsData example_times (\<lambda>s. s) [example_trends] (Some 0)) ! 0) =
     [''2025-01-03'', ''2025-01-01'', ''2025-01-02'']"
  using C7_trends_sorted_copy
    [where a = 0 and h = "[example_trends]" and getTime = example_times and lbl = "\<lambda>s. s"]
  by (simp add: example_trends_def example_times_def js_sort_def compare_dates_def positive_def
      trend_to_point_def)

section \<open>Settings: saving and loading back\<close>

text \<open>
  What the load routine restores after \<open>save\<close>: the two booleans always; the currency
  unless it is falsy; a number unless it is zero or not finite. What is not restored
  keeps the value it had before loading.
\<close>

lemma load_after_save:
  "load_settings ToNumber (save st ls) st0 =
     \<lparr> currency = (if truthy (Some (serialise (currency st)))
                    then serialise (currency st) else currency st0),
       showFeatureImportance = showFeatureImportance st,
       historyItems = (case historyItems st of
                         Num x \<Rightarrow> if x \<noteq> 0 then Num x else historyItems st0
                       | _ \<Rightarrow> historyItems st0),
       autoRefresh = autoRefresh st,
       refreshSec = (case refreshSec st of
                       Num x \<Rightarrow> if x \<noteq> 0 then Num x else refreshSec st0
                     | _ \<Rightarrow> refreshSec st0) \<rparr>"
  by (cases "historyItems st"; cases "refreshSec st")
     (simp_all add: load_settings_def save_def getItem_or_empty_object_def JSON_parse_def
        JSON_stringify_def settings_value_def)

lemma settings_round_trip:
  assumes "c \<noteq> []" and "0 < n" and "0 < m"
  shows "load_settings ToNumber
           (save \<lparr>currency = JStr c, showFeatureImportance = b, historyItems = Num n,
                   autoRefresh = a, refreshSec = Num m\<rparr> ls) st0 =
         \<lparr>currency = JStr c, showFeatureImportance = b, historyItems = Num n,
           autoRefresh = a, refreshSec = Num m\<rparr>"
  using assms by (simp add: load_after_save)






text \<open>
  Every currency string that is not empty and every two positive numbers are among the
  values the page can hold: it holds them after mounting on a storage where they were
  saved.
\<close>

lemma page_reaches_saved_values:
  assumes "c \<noteq> []" and "0 < n" and "0 < m"
  shows "page_run ToNumber
           (save \<lparr>currency = JStr c, showFeatureImportance = b, historyItems = Num n,
                   autoRefresh = a, refreshSec = Num m\<rparr> Map.empty) [] =
         (\<lparr>currency = JStr c, showFeatureImportance = b, historyItems = Num n,
            autoRefresh = a, refreshSec = Num m\<rparr>,
          save \<lparr>currency = JStr c, showFeatureImportance = b, historyItems = Num n,
                 autoRefresh = a, refreshSec = Num m\<rparr> Map.empty)"
  by (simp add: page_run_def mount_def settings_round_trip [OF assms])



section \<open>Seeding at most once in a session\<close>

text \<open>
  Once a call has settled the marker is set, and no later run of either effect seeds
  again, whether the call succeeded or failed.
\<close>

lemma seededKey_step: "seededKey (step s ev) = seededKey s"
  by (cases ev)
     (auto simp: seededKey_def start_seed_def finally_branch_def Let_def
           split: option.splits page.splits)

lemma marker_blocks_seed:
  "marker_set s (seededKey s) \<Longrightarrow> pending s = [] \<Longrightarrow>
   step s ev = s"
  by (cases ev) (auto simp: start_seed_def split: option.splits)

lemma marker_blocks_all:
  "marker_set s (seededKey s) \<Longrightarrow> pending s = [] \<Longrightarrow> run_events s evs = s"
  by (induction evs) (auto simp: run_events_def marker_blocks_seed)

lemma settled_seed_blocks_later_runs:
  assumes "ev = TransactionsEffect idle_empty \<or> ev = DashboardEffect (Some 0)"
  shows "seed_calls (run_events (new_session email) (ev # SeedSettled 0 ok # evs)) = 1"
proof -
  let ?s2 = "step (step (new_session email) ev) (SeedSettled 0 ok)"
  have s2: "marker_set ?s2 (seededKey ?s2) \<and> pending ?s2 = [] \<and> seed_calls ?s2 = 1"
    using assms
    by (auto simp: new_session_def idle_empty_def start_seed_def marker_set_def seededKey_def
        finally_branch_def)
  then have "run_events ?s2 evs = ?s2"
    by (simp add: marker_blocks_all)
  then have "run_events (new_session email) (ev # SeedSettled 0 ok # evs) = ?s2"
    by (simp add: run_events_def)
  with s2 show ?thesis by simp
qed

text \<open>
  C10. A second run of the effect that starts while the first call is still waiting
  finds no marker and calls \<open>seedTransactions\<close> once more: two calls in one session for
  one user. On the Transactions page this happens when a refetch completes in between;
  on the Dashboard when the predictions arrive after the metrics.
\<close>

theorem C10_overlapping_runs_seed_twice:
  "seed_calls (run_events (new_session (Some ''a@b.c''))
      [TransactionsEffect idle_empty, TransactionsEffect fetching_empty,
       TransactionsEffect idle_empty]) = 2 \<and>
   seed_calls (run_events (new_session (Some ''a@b.c''))
      [DashboardEffect (Some 0), DashboardEffect (Some 0),
       SeedSettled 0 False, SeedSettled 0 False]) = 2"
  by (simp add: run_events_def new_session_def idle_empty_def fetching_empty_def start_seed_def
      marker_set_def seededKey_def finally_branch_def)

end
